theory Spec2Isabelle
  imports Main "HOL-Library.Word"
begin

unbundle bit_operations_syntax

section \<open>The tick engine of GameState.cpp\<close>

text \<open>
  A shallow embedding of \<^verbatim>\<open>src/openrct2/GameState.cpp\<close>: \<^verbatim>\<open>GameState::InitAll\<close>,
  \<^verbatim>\<open>GameState::Tick\<close> (the frame driver), \<^verbatim>\<open>GameState::UpdateLogic\<close> (one logical
  tick) and \<^verbatim>\<open>GameState::CreateStateSnapshot\<close>.

  The file calls some fifty functions of other translation units (network, input,
  subsystem updates, snapshot store, hook engine). Their bodies are not part of the
  sources, so every such call is kept as a call: it is appended to a trace, stamped
  with the value the tick counter has at that moment, and its effect on the state the
  collaborators own is a parameter (\<open>effect\<close>). The tick counter, the cached logical date
  and the other variables that only GameState.cpp writes are outside the reach of
  that parameter.
\<close>

subsection \<open>Data\<close>

type_synonym u8 = "8 word"
type_synonym u16 = "16 word"
type_synonym u32 = "32 word"

text \<open>The network role. The enumerators are named in GameState.cpp.\<close>

datatype NetworkMode = NETWORK_MODE_NONE | NETWORK_MODE_CLIENT | NETWORK_MODE_SERVER

text \<open>
  Of the connection status, the authentication status and the input state the code
  names one, one and two values; every other enumerator is the last constructor.
\<close>

datatype NetworkStatus = NETWORK_STATUS_CONNECTED | NETWORK_STATUS_not_connected

datatype NetworkAuth = NetworkAuth_Ok | NetworkAuth_not_ok

datatype InputState = InputState_Reset | InputState_Normal | InputState_interactive

datatype HOOK_TYPE = INTERVAL_TICK | INTERVAL_DAY

datatype profiled = fn_InitAll | fn_Tick | fn_UpdateLogic | fn_CreateStateSnapshot

text \<open>\<^verbatim>\<open>Date(monthsElapsed, monthTicks)\<close>, the value cached in \<^verbatim>\<open>GameState::_date\<close>.\<close>

record Date =
  monthsElapsed :: u32
  monthTicks :: u16

text \<open>
  The calls GameState.cpp makes into other translation units, one constructor per
  callee, with the arguments the call site passes.
\<close>

datatype call =
    PROFILED_FUNCTION profiled
  | ScreenshotCheck
  | GameHandleKeyboardInput
  | TitleSequencePlayer_Update
  | network_update
  | network_send_tick
  | network_process_pending
  | network_flush
  | network_check_desynchronisation
  | network_request_gamestate_snapshot
  | MapAnimationInvalidateAll
  | GameActions_ProcessQueue
  | PauseToggle_call
  | InputSetFlag_VIEWPORT_SCROLLING bool
  | ContextUpdateMapTooltip
  | ContextHandleInput
  | ScenarioAutosaveCheck
  | WindowDispatchUpdateAll
  | ReplayManager_Update
  | CreateSnapshot
  | Capture
  | LinkSnapshot u32 u32
  | DateUpdate
  | ScenarioUpdate
  | ClimateUpdate
  | MapUpdateTiles
  | MapRemoveProvisionalElements
  | MapUpdatePathWideFlags
  | PeepUpdateAll
  | MapRestoreProvisionalElements
  | VehicleUpdateAll
  | UpdateAllMiscEntities
  | Ride_UpdateAll
  | Park_Update Date
  | ResearchUpdate
  | RideRatingsUpdateAll
  | RideMeasurementsUpdate
  | News_UpdateCurrentItem
  | VehicleSoundsUpdate
  | PeepUpdateCrowdNoise
  | ClimateUpdateSound
  | EditorOpenWindowsForCurrentStep
  | HookEngine_Call HOOK_TYPE bool
  | MapInit "int \<times> int"
  | Park_Initialise
  | FinanceInit
  | BannerInit
  | RideInitAll
  | ResetAllEntities
  | UpdateConsolidatedPatrolAreas
  | DateReset
  | ClimateReset_CoolAndWet
  | News_InitQueue
  | ContextInit
  | ScenerySetDefaultPlacementConfiguration
  | ContextBroadcastIntent_CLEAR_TILE_INSPECTOR_CLIPBOARD
  | LoadPalette
  | CheatsReset
  | ClearRestrictedScenery
  | ScriptEngine_ClearParkStorage

text \<open>
  What the collaborators own and GameState.cpp reads through their getters or
  globals. \<open>gGamePaused\<close> is the answer of \<^verbatim>\<open>GameIsPaused()\<close>, \<open>inputState\<close> that of
  \<^verbatim>\<open>InputGetState()\<close>, \<open>network_desynchronised\<close> what
  \<^verbatim>\<open>network_check_desynchronisation()\<close> returns, \<open>titleSequencePlayer\<close> whether the UI
  context has a title sequence player, \<open>scenarioRand_s0\<close> is
  \<^verbatim>\<open>ScenarioRandState().s0\<close>, \<open>Platform_GetTicks\<close> the platform's clock. The map flashing
  flags are kept one boolean per flag. The integers are taken as 32 bits wide unless
  the name says otherwise; of the widths only that of the tick counter and of the
  server tick bears on what follows, and line 131 fixes it (\<^verbatim>\<open>std::clamp<uint32_t>\<close>).
  The speed level is a natural number.
\<close>

record world =
  network_mode :: NetworkMode
  network_status :: NetworkStatus
  network_authstatus :: NetworkAuth
  network_server_tick :: u32
  network_num_players :: int
  network_gamestate_snapshots_enabled :: bool
  network_desynchronised :: bool
  gGamePaused :: bool
  gGameSpeed :: nat
  gDoSingleUpdate :: bool
  gPreviewingTitleSequenceInGame :: bool
  titleSequencePlayer :: bool
  inputState :: InputState
  INPUT_FLAG_VIEWPORT_SCROLLING :: bool
  gOpenRCT2Headless :: bool
  PauseServerIfNoClients :: bool
  gScreenFlags :: u8
  gCurrentRealTimeTicks :: u32
  flash_SwitchColour :: bool
  flash_FlashGuests :: bool
  flash_GuestListOpen :: bool
  flash_FlashStaff :: bool
  flash_StaffListOpen :: bool
  gDateMonthsElapsed :: u32
  gDateMonthTicks :: u16
  scenarioRand_s0 :: u32
  gLastAutoSaveUpdate :: u32
  Platform_GetTicks :: u32

text \<open>
  The state GameState.cpp itself writes, the collaborators' state and the trace of
  calls made so far (oldest first), each with the tick counter's value at the call.
\<close>

record game =
  gCurrentTicks :: u32
  gScreenAge :: u32
  gSavedAge :: u32
  gInUpdateCode :: bool
  gInMapInitCode :: bool
  gNextGuestNumber :: u32
  date :: Date
  world :: world
  trace :: "(u32 \<times> call) list"

text \<open>
  What the sources do not contain, taken as parameters: the effect of each call on the
  collaborators' state (it may depend on the tick counter, which the callees read),
  \<^verbatim>\<open>Date::GetDay\<close>, whether the build defines \<^verbatim>\<open>ENABLE_SCRIPTING\<close>, the screen flag
  masks, the constant \<^verbatim>\<open>AUTOSAVE_PAUSE\<close>, and what the target yields for \<^verbatim>\<open>1 << n\<close>
  when \<open>n\<close> is 32 or more (C++ leaves it undefined).
\<close>

record deps =
  effect :: "call \<Rightarrow> u32 \<Rightarrow> world \<Rightarrow> world"
  Date_GetDay :: "Date \<Rightarrow> int"
  ENABLE_SCRIPTING :: bool
  SCREEN_FLAGS_TITLE_DEMO :: u8
  SCREEN_FLAGS_TRACK_DESIGNER :: u8
  SCREEN_FLAGS_TRACK_MANAGER :: u8
  SCREEN_FLAGS_EDITOR :: u8
  AUTOSAVE_PAUSE :: u32
  shift_out_of_range :: "nat \<Rightarrow> u32"

subsection \<open>Calls into collaborators\<close>

definition invoke :: "deps \<Rightarrow> call \<Rightarrow> game \<Rightarrow> game" where
  "invoke d c g =
     g\<lparr>world := effect d c (gCurrentTicks g) (world g),
       trace := trace g @ [(gCurrentTicks g, c)]\<rparr>"

text \<open>A run of calls with nothing in between.\<close>

definition invokes :: "deps \<Rightarrow> call list \<Rightarrow> game \<Rightarrow> game" where
  "invokes d cs g = fold (invoke d) cs g"

text \<open>
  Modelled from the spec: \<^verbatim>\<open>PauseToggle\<close>, \<^verbatim>\<open>GameIsPaused\<close> and \<^verbatim>\<open>GameIsNotPaused\<close> are
  defined outside the sources. The spec's pause state is a boolean (is-paused) that the
  single step toggles off and back on; whatever else the call does is its \<open>effect\<close>.
\<close>

definition GameIsPaused :: "game \<Rightarrow> bool" where
  "GameIsPaused g = gGamePaused (world g)"

definition GameIsNotPaused :: "game \<Rightarrow> bool" where
  "GameIsNotPaused g = (\<not> gGamePaused (world g))"

definition PauseToggle :: "deps \<Rightarrow> game \<Rightarrow> game" where
  "PauseToggle d g =
     invoke d PauseToggle_call
       (g\<lparr>world := (world g)\<lparr>gGamePaused := \<not> gGamePaused (world g)\<rparr>\<rparr>)"

text \<open>
  \<^verbatim>\<open>InputSetFlag(INPUT_FLAG_VIEWPORT_SCROLLING, on)\<close>: the flag that
  \<^verbatim>\<open>InputTestFlag\<close> reads takes the value passed.
\<close>

definition InputSetFlag :: "deps \<Rightarrow> bool \<Rightarrow> game \<Rightarrow> game" where
  "InputSetFlag d on g =
     invoke d (InputSetFlag_VIEWPORT_SCROLLING on)
       (g\<lparr>world := (world g)\<lparr>INPUT_FLAG_VIEWPORT_SCROLLING := on\<rparr>\<rparr>)"

subsection \<open>GameState::CreateStateSnapshot\<close>

definition CreateStateSnapshot :: "deps \<Rightarrow> game \<Rightarrow> game" where
  "CreateStateSnapshot d g0 =
     (let g1 = invoke d (PROFILED_FUNCTION fn_CreateStateSnapshot) g0;
          g2 = invoke d CreateSnapshot g1;
          g3 = invoke d Capture g2
      in invoke d (LinkSnapshot (gCurrentTicks g3) (scenarioRand_s0 (world g3))) g3)"

subsection \<open>GameState::UpdateLogic\<close>

text \<open>
  Lines 256--274: the screen age saturates instead of wrapping to 0, then the replay
  manager and the network layer are polled. The optional timing sink of
  \<^verbatim>\<open>UpdateLogic\<close> records wall-clock durations only and is left out.
\<close>

definition UpdateLogic_prologue :: "deps \<Rightarrow> game \<Rightarrow> game" where
  "UpdateLogic_prologue d g0 =
     (let g1 = invoke d (PROFILED_FUNCTION fn_UpdateLogic) g0;
          g2 = g1\<lparr>gScreenAge := gScreenAge g1 + 1\<rparr>;
          g3 = (if gScreenAge g2 = 0 then g2\<lparr>gScreenAge := gScreenAge g2 - 1\<rparr> else g2);
          g4 = invoke d ReplayManager_Update g3
      in invoke d network_update g4)"

text \<open>
  Lines 276--308, the part that depends on the network role. \<open>None\<close> is the
  \<^verbatim>\<open>return\<close> of line 291.
\<close>

definition UpdateLogic_network :: "deps \<Rightarrow> game \<Rightarrow> game option" where
  "UpdateLogic_network d g =
     (if network_mode (world g) = NETWORK_MODE_SERVER then
        (let g1 = (if network_gamestate_snapshots_enabled (world g)
                   then CreateStateSnapshot d g else g)
         in Some (invoke d network_send_tick g1))
      else if network_mode (world g) = NETWORK_MODE_CLIENT then
        (if network_server_tick (world g) = gCurrentTicks g then None
         else
           (let g1 = invoke d network_check_desynchronisation g;
                desynced = network_desynchronised (world g1)
            in if desynced then
                 (if network_gamestate_snapshots_enabled (world g1)
                     \<and> network_status (world g1) = NETWORK_STATUS_CONNECTED
                  then Some (invoke d network_request_gamestate_snapshot
                               (CreateStateSnapshot d g1))
                  else Some g1)
               else Some g1))
      else Some g)"

text \<open>Lines 310--393: the subsystem updates in their fixed order, the clock, the hooks.\<close>

definition UpdateLogic_pipeline :: "deps \<Rightarrow> game \<Rightarrow> game" where
  "UpdateLogic_pipeline d g0 =
     (let day = Date_GetDay d (date g0);
          g1 = invoke d DateUpdate g0;
          g2 = g1\<lparr>date := \<lparr>monthsElapsed = gDateMonthsElapsed (world g1),
                            monthTicks = gDateMonthTicks (world g1)\<rparr>\<rparr>;
          g3 = invokes d
                 [ScenarioUpdate, ClimateUpdate, MapUpdateTiles,
                  MapRemoveProvisionalElements, MapUpdatePathWideFlags, PeepUpdateAll,
                  MapRestoreProvisionalElements, VehicleUpdateAll, UpdateAllMiscEntities,
                  Ride_UpdateAll] g2;
          g4 = (if gScreenFlags (world g3) AND SCREEN_FLAGS_EDITOR d = 0
                then invoke d (Park_Update (date g3)) g3 else g3);
          g5 = invokes d
                 [ResearchUpdate, RideRatingsUpdateAll, RideMeasurementsUpdate,
                  News_UpdateCurrentItem, MapAnimationInvalidateAll, VehicleSoundsUpdate,
                  PeepUpdateCrowdNoise, ClimateUpdateSound,
                  EditorOpenWindowsForCurrentStep] g4;
          g6 = (if gLastAutoSaveUpdate (world g5) = AUTOSAVE_PAUSE d
                then g5\<lparr>world := (world g5)\<lparr>gLastAutoSaveUpdate :=
                                                  Platform_GetTicks (world g5)\<rparr>\<rparr>
                else g5);
          g7 = invokes d
                 [GameActions_ProcessQueue, network_process_pending, network_flush] g6;
          g8 = g7\<lparr>gCurrentTicks := gCurrentTicks g7 + 1, gSavedAge := gSavedAge g7 + 1\<rparr>
      in if ENABLE_SCRIPTING d then
           (let g9 = invoke d (HookEngine_Call INTERVAL_TICK True) g8
            in if day \<noteq> Date_GetDay d (date g9)
               then invoke d (HookEngine_Call INTERVAL_DAY True) g9 else g9)
         else g8)"

definition UpdateLogic :: "deps \<Rightarrow> game \<Rightarrow> game" where
  "UpdateLogic d g =
     (let g1 = UpdateLogic_prologue d g
      in case UpdateLogic_network d g1 of
           None \<Rightarrow> g1
         | Some g2 \<Rightarrow> UpdateLogic_pipeline d g2)"

subsection \<open>GameState::Tick\<close>

text \<open>Lines 106--126: screenshot, keyboard, title sequence preview, network poll.\<close>

definition Tick_prologue :: "deps \<Rightarrow> game \<Rightarrow> game" where
  "Tick_prologue d g0 =
     (let g1 = invoke d (PROFILED_FUNCTION fn_Tick) g0;
          g2 = g1\<lparr>gInUpdateCode := True\<rparr>;
          g3 = invoke d ScreenshotCheck g2;
          g4 = invoke d GameHandleKeyboardInput g3;
          g5 = (if GameIsNotPaused g4 \<and> gPreviewingTitleSequenceInGame (world g4)
                then (if titleSequencePlayer (world g4)
                      then invoke d TitleSequencePlayer_Update g4 else g4)
                else g4)
      in invoke d network_update g5)"

text \<open>\<^verbatim>\<open>std::clamp<uint32_t>(v, lo, hi)\<close>.\<close>

definition clamp_u32 :: "u32 \<Rightarrow> u32 \<Rightarrow> u32 \<Rightarrow> u32" where
  "clamp_u32 v lo hi = (if v < lo then lo else if hi < v then hi else v)"

text \<open>
  \<^verbatim>\<open>1 << n\<close> stored in the \<^verbatim>\<open>uint32_t numUpdates\<close>: the shift is an \<^verbatim>\<open>int\<close> shift,
  defined for \<open>n\<close> up to 31.
\<close>

definition shl1 :: "deps \<Rightarrow> nat \<Rightarrow> u32" where
  "shl1 d n = (if n < 32 then push_bit n 1 else shift_out_of_range d n)"

text \<open>Lines 111 and 128--141: how many updates the frame asks for.\<close>

definition Tick_numUpdates :: "deps \<Rightarrow> game \<Rightarrow> u32" where
  "Tick_numUpdates d g =
     (if network_mode (world g) = NETWORK_MODE_CLIENT
         \<and> network_status (world g) = NETWORK_STATUS_CONNECTED
         \<and> network_authstatus (world g) = NetworkAuth_Ok
      then clamp_u32 (network_server_tick (world g) - gCurrentTicks g) 0 10
      else if gGameSpeed (world g) > 1 then shl1 d (gGameSpeed (world g) - 1)
      else 1)"

text \<open>Lines 143--151: paused by the player, or a headless server with no one else on.\<close>

definition Tick_isPaused :: "game \<Rightarrow> bool" where
  "Tick_isPaused g =
     (let isPaused = GameIsPaused g
      in if network_mode (world g) = NETWORK_MODE_SERVER \<and> PauseServerIfNoClients (world g)
         then (if gOpenRCT2Headless (world g) \<and> network_num_players (world g) = 1
               then True else isPaused)
         else isPaused)"

text \<open>
  Lines 153--184. The result is \<^verbatim>\<open>didRunSingleFrame\<close>, the number of updates to run and
  the state.
\<close>

definition Tick_pause :: "deps \<Rightarrow> bool \<Rightarrow> u32 \<Rightarrow> game \<Rightarrow> bool \<times> u32 \<times> game" where
  "Tick_pause d isPaused numUpdates g =
     (if isPaused then
        (if gDoSingleUpdate (world g) \<and> network_mode (world g) = NETWORK_MODE_NONE
         then (True, 1, PauseToggle d g)
         else
           (let g1 = (if network_mode (world g) = NETWORK_MODE_SERVER
                      then invoke d network_send_tick g else g)
            in (False, 0,
                invokes d [MapAnimationInvalidateAll, network_process_pending,
                           GameActions_ProcessQueue] g1)))
      else (False, numUpdates, g))"

text \<open>
  Lines 187--205, the loop \<^verbatim>\<open>for (i = 0; i < numUpdates; i++)\<close>, by recursion on the
  number of iterations still to run. Returning without the recursive call is the
  \<^verbatim>\<open>break\<close>.
\<close>

fun update_loop :: "deps \<Rightarrow> nat \<Rightarrow> game \<Rightarrow> game" where
  "update_loop d 0 g = g"
| "update_loop d (Suc n) g =
     (let g1 = UpdateLogic d g
      in if gGameSpeed (world g1) = 1 then
           (if inputState (world g1) = InputState_Reset
               \<or> inputState (world g1) = InputState_Normal
            then (if INPUT_FLAG_VIEWPORT_SCROLLING (world g1)
                  then InputSetFlag d False g1
                  else update_loop d n g1)
            else g1)
         else update_loop d n g1)"

text \<open>Lines 216--229, on the flags one by one.\<close>

definition map_flashing :: "world \<Rightarrow> world" where
  "map_flashing w0 =
     (let w1 = (if gCurrentRealTimeTicks w0 mod 4 = 0
                then w0\<lparr>flash_SwitchColour := \<not> flash_SwitchColour w0\<rparr> else w0);
          w2 = w1\<lparr>flash_FlashGuests := False\<rparr>;
          w3 = (if flash_GuestListOpen w2 then w2\<lparr>flash_FlashGuests := True\<rparr> else w2);
          w4 = w3\<lparr>flash_GuestListOpen := False\<rparr>;
          w5 = w4\<lparr>flash_FlashStaff := False\<rparr>;
          w6 = (if flash_StaffListOpen w5 then w5\<lparr>flash_FlashStaff := True\<rparr> else w5)
      in w6\<lparr>flash_StaffListOpen := False\<rparr>)"

text \<open>Lines 207--251: what follows the loop.\<close>

definition Tick_epilogue :: "deps \<Rightarrow> bool \<Rightarrow> game \<Rightarrow> game" where
  "Tick_epilogue d didRunSingleFrame g0 =
     (let g1 = invoke d network_flush g0;
          g2 = (if \<not> gOpenRCT2Headless (world g1) then
                  (let h1 = InputSetFlag d False g1;
                       h2 = h1\<lparr>world := map_flashing (world h1)\<rparr>;
                       h3 = invoke d ContextUpdateMapTooltip h2
                   in invoke d ContextHandleInput h3)
                else g1);
          g3 = (if gScreenFlags (world g2) AND SCREEN_FLAGS_TITLE_DEMO d = 0
                   \<and> gScreenFlags (world g2) AND SCREEN_FLAGS_TRACK_DESIGNER d = 0
                   \<and> gScreenFlags (world g2) AND SCREEN_FLAGS_TRACK_MANAGER d = 0
                then invoke d ScenarioAutosaveCheck g2 else g2);
          g4 = invoke d WindowDispatchUpdateAll g3;
          g5 = (if didRunSingleFrame \<and> GameIsNotPaused g4
                   \<and> gScreenFlags (world g4) AND SCREEN_FLAGS_TITLE_DEMO d = 0
                then PauseToggle d g4 else g4)
      in g5\<lparr>world := (world g5)\<lparr>gDoSingleUpdate := False\<rparr>, gInUpdateCode := False\<rparr>)"

definition Tick :: "deps \<Rightarrow> game \<Rightarrow> game" where
  "Tick d g0 =
     (let g1 = Tick_prologue d g0;
          numUpdates = Tick_numUpdates d g1;
          isPaused = Tick_isPaused g1
      in case Tick_pause d isPaused numUpdates g1 of
           (didRunSingleFrame, n, g2) \<Rightarrow>
             Tick_epilogue d didRunSingleFrame (update_loop d (unat n) g2))"

subsection \<open>GameState::InitAll\<close>

definition InitAll :: "deps \<Rightarrow> int \<times> int \<Rightarrow> game \<Rightarrow> game" where
  "InitAll d mapSize g0 =
     (let g1 = invoke d (PROFILED_FUNCTION fn_InitAll) g0;
          g2 = g1\<lparr>gInMapInitCode := True, gCurrentTicks := 0\<rparr>;
          g3 = invokes d
                 [MapInit mapSize, Park_Initialise, FinanceInit, BannerInit, RideInitAll,
                  ResetAllEntities, UpdateConsolidatedPatrolAreas, DateReset,
                  ClimateReset_CoolAndWet, News_InitQueue] g2;
          g4 = g3\<lparr>gInMapInitCode := False, gNextGuestNumber := 1\<rparr>;
          g5 = invokes d
                 [ContextInit, ScenerySetDefaultPlacementConfiguration,
                  ContextBroadcastIntent_CLEAR_TILE_INSPECTOR_CLIPBOARD, LoadPalette,
                  CheatsReset, ClearRestrictedScenery] g4
      in if ENABLE_SCRIPTING d then invoke d ScriptEngine_ClearParkStorage g5 else g5)"

subsection \<open>Reading the trace\<close>

text \<open>The calls made between two states of one run.\<close>

definition since :: "game \<Rightarrow> game \<Rightarrow> (u32 \<times> call) list" where
  "since g g' = drop (length (trace g)) (trace g')"

definition count_calls :: "(call \<Rightarrow> bool) \<Rightarrow> (u32 \<times> call) list \<Rightarrow> nat" where
  "count_calls P evs = length (filter (\<lambda>e. P (snd e)) evs)"

definition count_call :: "call \<Rightarrow> (u32 \<times> call) list \<Rightarrow> nat" where
  "count_call c evs = count_calls (\<lambda>x. x = c) evs"

text \<open>The number of logical ticks started: entries into \<^verbatim>\<open>UpdateLogic\<close>.\<close>

definition updates_run :: "(u32 \<times> call) list \<Rightarrow> nat" where
  "updates_run evs = count_call (PROFILED_FUNCTION fn_UpdateLogic) evs"

text \<open>
  The subsystem updates that advance the simulated world (steps 2 to 16 of the spec's
  pipeline), the hook notifications, and the calls each part of the code can make.
\<close>

definition simulation_step :: "call \<Rightarrow> bool" where
  "simulation_step c =
     (case c of
        Park_Update dt \<Rightarrow> True
      | _ \<Rightarrow> c \<in> set [DateUpdate, ScenarioUpdate, ClimateUpdate, MapUpdateTiles,
                       MapRemoveProvisionalElements, MapUpdatePathWideFlags, PeepUpdateAll,
                       MapRestoreProvisionalElements, VehicleUpdateAll,
                       UpdateAllMiscEntities, Ride_UpdateAll, ResearchUpdate,
                       RideRatingsUpdateAll, RideMeasurementsUpdate,
                       News_UpdateCurrentItem])"

definition is_hook :: "call \<Rightarrow> bool" where
  "is_hook c = (case c of HookEngine_Call h b \<Rightarrow> True | _ \<Rightarrow> False)"

definition network_part :: "call \<Rightarrow> bool" where
  "network_part c =
     (case c of
        LinkSnapshot t s \<Rightarrow> True
      | _ \<Rightarrow> c \<in> set [PROFILED_FUNCTION fn_CreateStateSnapshot, CreateSnapshot, Capture,
                       network_send_tick, network_check_desynchronisation,
                       network_request_gamestate_snapshot])"

definition pipeline_part :: "call \<Rightarrow> bool" where
  "pipeline_part c =
     (simulation_step c
      \<or> c \<in> set [MapAnimationInvalidateAll, VehicleSoundsUpdate, PeepUpdateCrowdNoise,
                  ClimateUpdateSound, EditorOpenWindowsForCurrentStep,
                  GameActions_ProcessQueue, network_process_pending, network_flush])"

definition driver_part :: "call \<Rightarrow> bool" where
  "driver_part c =
     (case c of
        InputSetFlag_VIEWPORT_SCROLLING b \<Rightarrow> True
      | _ \<Rightarrow> c \<in> set [PROFILED_FUNCTION fn_Tick, ScreenshotCheck, GameHandleKeyboardInput,
                       TitleSequencePlayer_Update, network_update, network_send_tick,
                       network_flush, PauseToggle_call, ContextUpdateMapTooltip,
                       ContextHandleInput, ScenarioAutosaveCheck,
                       WindowDispatchUpdateAll])"

text \<open>The hook calls of lines 384--393 for an update that leads from \<open>g\<close> to \<open>g'\<close>.\<close>

definition hooks_fired :: "deps \<Rightarrow> game \<Rightarrow> game \<Rightarrow> call list" where
  "hooks_fired d g g' =
     (if ENABLE_SCRIPTING d
      then HookEngine_Call INTERVAL_TICK True #
           (if Date_GetDay d (date g) \<noteq> Date_GetDay d (date g')
            then [HookEngine_Call INTERVAL_DAY True] else [])
      else [])"

text \<open>The (tick, seed) pairs that snapshots were linked to, in the order of linking.\<close>

definition snapshot_links :: "(u32 \<times> call) list \<Rightarrow> (u32 \<times> u32) list" where
  "snapshot_links evs =
     concat (map (\<lambda>e. case snd e of LinkSnapshot t s \<Rightarrow> [(t, s)] | _ \<Rightarrow> []) evs)"

text \<open>
  The test of lines 286--292 as the update makes it, after its own
  \<^verbatim>\<open>network_update()\<close>: a client whose server tick equals the tick counter.
\<close>

definition UpdateLogic_returns_early :: "deps \<Rightarrow> game \<Rightarrow> bool" where
  "UpdateLogic_returns_early d g =
     (let g1 = UpdateLogic_prologue d g
      in network_mode (world g1) = NETWORK_MODE_CLIENT
         \<and> network_server_tick (world g1) = gCurrentTicks g1)"

text \<open>The state in which \<^verbatim>\<open>LinkSnapshot\<close> is called by \<^verbatim>\<open>CreateStateSnapshot\<close>.\<close>

definition at_link :: "deps \<Rightarrow> game \<Rightarrow> game" where
  "at_link d g =
     invokes d [PROFILED_FUNCTION fn_CreateStateSnapshot, CreateSnapshot, Capture] g"

text \<open>Consecutive logical ticks.\<close>

fun UpdateLogic_times :: "deps \<Rightarrow> nat \<Rightarrow> game \<Rightarrow> game" where
  "UpdateLogic_times d 0 g = g"
| "UpdateLogic_times d (Suc n) g = UpdateLogic_times d n (UpdateLogic d g)"

text \<open>
  The number of iterations the loop of \<^verbatim>\<open>Tick\<close> is entered with: \<^verbatim>\<open>numUpdates\<close> after the
  pause handling.
\<close>

definition Tick_requested :: "deps \<Rightarrow> game \<Rightarrow> nat" where
  "Tick_requested d g0 =
     (let g1 = Tick_prologue d g0
      in unat (fst (snd (Tick_pause d (Tick_isPaused g1) (Tick_numUpdates d g1) g1))))"

text \<open>
  The readings the frame driver decides on. A set of collaborators is \<open>steady\<close> when none
  of their calls changes one of these behind the driver's back: role, connection,
  server tick, pause, speed, single step request, input state, screen mode and
  configuration stay what they are unless GameState.cpp itself changes them.
\<close>

definition inputs ::
  "world \<Rightarrow> (NetworkMode \<times> NetworkStatus \<times> NetworkAuth \<times> u32 \<times> int \<times> bool)
           \<times> (bool \<times> nat \<times> bool \<times> InputState \<times> bool) \<times> (bool \<times> bool \<times> u8)" where
  "inputs w =
     ((network_mode w, network_status w, network_authstatus w, network_server_tick w,
       network_num_players w, network_gamestate_snapshots_enabled w),
      (gGamePaused w, gGameSpeed w, gDoSingleUpdate w, inputState w,
       INPUT_FLAG_VIEWPORT_SCROLLING w),
      (gOpenRCT2Headless w, PauseServerIfNoClients w, gScreenFlags w))"

definition steady :: "deps \<Rightarrow> bool" where
  "steady d = (\<forall>c t w. inputs (effect d c t w) = inputs w)"

text \<open>
  The loop's \<^verbatim>\<open>break\<close> cannot be taken: the speed is not 1, or the input state is
  \<^verbatim>\<open>Reset\<close> or \<^verbatim>\<open>Normal\<close> with the viewport scrolling flag clear.
\<close>

definition no_break :: "world \<Rightarrow> bool" where
  "no_break w =
     (gGameSpeed w \<noteq> 1
      \<or> ((inputState w = InputState_Reset \<or> inputState w = InputState_Normal)
          \<and> \<not> INPUT_FLAG_VIEWPORT_SCROLLING w))"

text \<open>
  Where the loop of \<^verbatim>\<open>Tick\<close> takes its \<^verbatim>\<open>break\<close> (lines 197 and 202): the state right
  after the update that the test of line 190 follows, or \<open>None\<close> when the loop runs to
  its bound. The recursion is that of \<open>update_loop\<close>.
\<close>

fun update_loop_break :: "deps \<Rightarrow> nat \<Rightarrow> game \<Rightarrow> game option" where
  "update_loop_break d 0 g = None"
| "update_loop_break d (Suc n) g =
     (let g1 = UpdateLogic d g
      in if gGameSpeed (world g1) = 1 then
           (if inputState (world g1) = InputState_Reset
               \<or> inputState (world g1) = InputState_Normal
            then (if INPUT_FLAG_VIEWPORT_SCROLLING (world g1)
                  then Some g1
                  else update_loop_break d n g1)
            else Some g1)
         else update_loop_break d n g1)"

text \<open>The same for a frame: the loop as \<^verbatim>\<open>Tick\<close> enters it.\<close>

definition Tick_break :: "deps \<Rightarrow> game \<Rightarrow> game option" where
  "Tick_break d g0 =
     (let g1 = Tick_prologue d g0
      in case Tick_pause d (Tick_isPaused g1) (Tick_numUpdates d g1) g1 of
           (didRunSingleFrame, n, g2) \<Rightarrow> update_loop_break d (unat n) g2)"

text \<open>
  The number of logical ticks completed. An update that gets past the client's test of
  line 289 calls \<^verbatim>\<open>DateUpdate\<close> (line 316) once and has no way out before the increment
  of line 381; nothing else in GameState.cpp calls \<^verbatim>\<open>DateUpdate\<close>.
\<close>

definition updates_completed :: "(u32 \<times> call) list \<Rightarrow> nat" where
  "updates_completed evs = count_call DateUpdate evs"

text \<open>
  \<open>n\<close> consecutive updates of a server that takes snapshots: each of them, after its own
  \<^verbatim>\<open>network_update()\<close>, reads the role \<^verbatim>\<open>Server\<close> (line 276) and snapshots enabled
  (line 278).
\<close>

fun serving :: "deps \<Rightarrow> nat \<Rightarrow> game \<Rightarrow> bool" where
  "serving d 0 g = True"
| "serving d (Suc n) g =
     (network_mode (world (UpdateLogic_prologue d g)) = NETWORK_MODE_SERVER
      \<and> network_gamestate_snapshots_enabled (world (UpdateLogic_prologue d g))
      \<and> serving d n (UpdateLogic d g))"

text \<open>
  Of the simulated world, what GameState.cpp itself reads: the counters behind the
  logical date and the state of the random number generator. \<open>housekeeping\<close> are the
  calls a frame makes outside \<^verbatim>\<open>UpdateLogic\<close>: those of the driver and the three of lines
  176--182. Collaborators keep the simulation state under a class of calls when none
  of those calls changes it.
\<close>

definition simulation_state :: "world \<Rightarrow> u32 \<times> u16 \<times> u32" where
  "simulation_state w = (gDateMonthsElapsed w, gDateMonthTicks w, scenarioRand_s0 w)"

definition housekeeping :: "call \<Rightarrow> bool" where
  "housekeeping c =
     (driver_part c
      \<or> c \<in> set [MapAnimationInvalidateAll, network_process_pending,
                  GameActions_ProcessQueue])"

definition keeps_simulation :: "deps \<Rightarrow> (call \<Rightarrow> bool) \<Rightarrow> bool" where
  "keeps_simulation d P =
     (\<forall>c t w. P c \<longrightarrow> simulation_state (effect d c t w) = simulation_state w)"

subsection \<open>Concrete collaborators and states\<close>

text \<open>
  Collaborators for concrete runs: the date update advances the month ticks by 4, every
  other call leaves the collaborators' state alone; a day is 2048 month ticks; the
  title demo mask is bit 0 and the editor mask the union of bits 1 to 3; an
  out-of-range shift wraps its count.
\<close>

definition deps0 :: deps where
  "deps0 =
     \<lparr>effect = (\<lambda>c t w. if c = DateUpdate
                          then w\<lparr>gDateMonthTicks := gDateMonthTicks w + 4\<rparr> else w),
      Date_GetDay = (\<lambda>dt. uint (drop_bit 11 (monthTicks dt))),
      ENABLE_SCRIPTING = True,
      SCREEN_FLAGS_TITLE_DEMO = 1,
      SCREEN_FLAGS_TRACK_DESIGNER = 4,
      SCREEN_FLAGS_TRACK_MANAGER = 8,
      SCREEN_FLAGS_EDITOR = 14,
      AUTOSAVE_PAUSE = 0,
      shift_out_of_range = (\<lambda>n. push_bit (n mod 32) 1)\<rparr>"

text \<open>A single-player game at tick 100, running at normal speed, nothing pressed.\<close>

definition world0 :: world where
  "world0 =
     \<lparr>network_mode = NETWORK_MODE_NONE,
      network_status = NETWORK_STATUS_not_connected,
      network_authstatus = NetworkAuth_not_ok,
      network_server_tick = 0,
      network_num_players = 1,
      network_gamestate_snapshots_enabled = False,
      network_desynchronised = False,
      gGamePaused = False,
      gGameSpeed = 1,
      gDoSingleUpdate = False,
      gPreviewingTitleSequenceInGame = False,
      titleSequencePlayer = False,
      inputState = InputState_Normal,
      INPUT_FLAG_VIEWPORT_SCROLLING = False,
      gOpenRCT2Headless = False,
      PauseServerIfNoClients = False,
      gScreenFlags = 0,
      gCurrentRealTimeTicks = 0,
      flash_SwitchColour = False,
      flash_FlashGuests = False,
      flash_GuestListOpen = False,
      flash_FlashStaff = False,
      flash_StaffListOpen = False,
      gDateMonthsElapsed = 0,
      gDateMonthTicks = 0,
      scenarioRand_s0 = 7,
      gLastAutoSaveUpdate = 0,
      Platform_GetTicks = 5\<rparr>"

definition game0 :: game where
  "game0 =
     \<lparr>gCurrentTicks = 100, gScreenAge = 0, gSavedAge = 0, gInUpdateCode = False,
      gInMapInitCode = False, gNextGuestNumber = 1,
      date = \<lparr>monthsElapsed = 0, monthTicks = 0\<rparr>,
      world = world0, trace = []\<rparr>"

text \<open>A connected, authenticated client at tick \<open>local\<close> whose server announced \<open>server\<close>.\<close>

definition client_at :: "u32 \<Rightarrow> u32 \<Rightarrow> game" where
  "client_at local server =
     game0\<lparr>gCurrentTicks := local,
           world := world0\<lparr>network_mode := NETWORK_MODE_CLIENT,
                           network_status := NETWORK_STATUS_CONNECTED,
                           network_authstatus := NetworkAuth_Ok,
                           network_server_tick := server\<rparr>\<rparr>"

text \<open>The same client while the player holds a widget: an input state that is not idle.\<close>

definition busy_client_at :: "u32 \<Rightarrow> u32 \<Rightarrow> game" where
  "busy_client_at local server =
     (client_at local server)
       \<lparr>world := (world (client_at local server))\<lparr>inputState := InputState_interactive\<rparr>\<rparr>"


definition single_step_with_flags :: "u8 \<Rightarrow> game" where
  "single_step_with_flags f =
     game0\<lparr>world := world0\<lparr>gGamePaused := True, gDoSingleUpdate := True,
                             gScreenFlags := f\<rparr>\<rparr>"

text \<open>A headless server with no client connected, configured to pause then.\<close>

definition lonely_server :: game where
  "lonely_server =
     game0\<lparr>world := world0\<lparr>network_mode := NETWORK_MODE_SERVER,
                             gOpenRCT2Headless := True,
                             PauseServerIfNoClients := True\<rparr>\<rparr>"

text \<open>A single-player game four month ticks before the next day begins.\<close>

definition eve_of_day :: game where
  "eve_of_day =
     game0\<lparr>date := \<lparr>monthsElapsed = 0, monthTicks = 2044\<rparr>,
           world := world0\<lparr>gDateMonthTicks := 2044\<rparr>\<rparr>"

text \<open>A server with snapshots enabled, and a single-player game, at a given tick.\<close>

definition server_at :: "u32 \<Rightarrow> game" where
  "server_at t =
     game0\<lparr>gCurrentTicks := t,
           world := world0\<lparr>network_mode := NETWORK_MODE_SERVER,
                           network_gamestate_snapshots_enabled := True\<rparr>\<rparr>"

definition single_player_at :: "u32 \<Rightarrow> game" where
  "single_player_at t = game0\<lparr>gCurrentTicks := t\<rparr>"

text \<open>
  Modelled from the spec: \<^verbatim>\<open>GameActions::ProcessQueue\<close> is defined outside the sources.
  The spec has it drain and execute the entries that are due, the queue being the
  channel by which the world is changed from outside the pipeline. Here an entry is
  due whenever the queue is drained, and executing it draws a random number: the
  state of the generator advances. No other call has an effect.
\<close>

definition deps_queued_action :: deps where
  "deps_queued_action =
     deps0\<lparr>effect := (\<lambda>c t w. if c = GameActions_ProcessQueue
                               then w\<lparr>scenarioRand_s0 := scenarioRand_s0 w + 1\<rparr> else w)\<rparr>"

section \<open>Properties\<close>

subsection \<open>Calls and traces\<close>

lemma ticks_invoke [simp]: "gCurrentTicks (invoke d c g) = gCurrentTicks g"
  by (simp add: invoke_def)

lemma date_invoke [simp]: "date (invoke d c g) = date g"
  by (simp add: invoke_def)

lemma trace_invoke [simp]: "trace (invoke d c g) = trace g @ [(gCurrentTicks g, c)]"
  by (simp add: invoke_def)

lemma world_invoke: "world (invoke d c g) = effect d c (gCurrentTicks g) (world g)"
  by (simp add: invoke_def)

lemma steady_invoke: "steady d \<Longrightarrow> inputs (world (invoke d c g)) = inputs (world g)"
  by (simp add: steady_def world_invoke)

lemma ticks_invokes [simp]: "gCurrentTicks (invokes d cs g) = gCurrentTicks g"
  unfolding invokes_def by (induction cs arbitrary: g) simp_all

lemma date_invokes [simp]: "date (invokes d cs g) = date g"
  unfolding invokes_def by (induction cs arbitrary: g) simp_all

lemma trace_invokes [simp]:
  "trace (invokes d cs g) = trace g @ map (Pair (gCurrentTicks g)) cs"
  unfolding invokes_def by (induction cs arbitrary: g) simp_all

lemma steady_invokes: "steady d \<Longrightarrow> inputs (world (invokes d cs g)) = inputs (world g)"
  unfolding invokes_def by (induction cs arbitrary: g) (simp_all add: steady_invoke)

lemma since_append: "trace g' = trace g @ evs \<Longrightarrow> since g g' = evs"
  by (simp add: since_def)

lemma count_calls_Nil [simp]: "count_calls P [] = 0"
  by (simp add: count_calls_def)

lemma count_calls_Cons [simp]:
  "count_calls P (e # evs) = (if P (snd e) then 1 else 0) + count_calls P evs"
  by (simp add: count_calls_def)

lemma count_calls_append [simp]:
  "count_calls P (xs @ ys) = count_calls P xs + count_calls P ys"
  by (simp add: count_calls_def)

lemma count_calls_none:
  "list_all (\<lambda>e. \<not> P (snd e)) evs \<Longrightarrow> count_calls P evs = 0"
  by (induction evs) simp_all

lemma count_calls_stamped:
  "count_calls P (map (Pair t) cs) = length (filter P cs)"
  by (induction cs) simp_all

lemma list_all_weaken:
  "list_all Q evs \<Longrightarrow> (\<And>e. Q e \<Longrightarrow> R e) \<Longrightarrow> list_all R evs"
  by (induction evs) simp_all

lemma inputs_eq_iff:
  "inputs w' = inputs w \<longleftrightarrow>
     network_mode w' = network_mode w \<and> network_status w' = network_status w
     \<and> network_authstatus w' = network_authstatus w
     \<and> network_server_tick w' = network_server_tick w
     \<and> network_num_players w' = network_num_players w
     \<and> network_gamestate_snapshots_enabled w' = network_gamestate_snapshots_enabled w
     \<and> gGamePaused w' = gGamePaused w \<and> gGameSpeed w' = gGameSpeed w
     \<and> gDoSingleUpdate w' = gDoSingleUpdate w \<and> inputState w' = inputState w
     \<and> INPUT_FLAG_VIEWPORT_SCROLLING w' = INPUT_FLAG_VIEWPORT_SCROLLING w
     \<and> gOpenRCT2Headless w' = gOpenRCT2Headless w
     \<and> PauseServerIfNoClients w' = PauseServerIfNoClients w
     \<and> gScreenFlags w' = gScreenFlags w"
  by (auto simp add: inputs_def)

lemma inputs_gLastAutoSaveUpdate [simp]:
  "inputs (w\<lparr>gLastAutoSaveUpdate := x\<rparr>) = inputs w"
  by (simp add: inputs_def)

lemma inputs_map_flashing [simp]: "inputs (map_flashing w) = inputs w"
  by (simp add: inputs_def map_flashing_def Let_def)

subsection \<open>PauseToggle, InputSetFlag, CreateStateSnapshot\<close>

lemma ticks_PauseToggle [simp]: "gCurrentTicks (PauseToggle d g) = gCurrentTicks g"
  by (simp add: PauseToggle_def)

lemma date_PauseToggle [simp]: "date (PauseToggle d g) = date g"
  by (simp add: PauseToggle_def)

lemma trace_PauseToggle [simp]:
  "trace (PauseToggle d g) = trace g @ [(gCurrentTicks g, PauseToggle_call)]"
  by (simp add: PauseToggle_def)

lemma steady_PauseToggle:
  "steady d \<Longrightarrow>
   inputs (world (PauseToggle d g)) = inputs ((world g)\<lparr>gGamePaused := \<not> gGamePaused (world g)\<rparr>)"
  by (simp add: PauseToggle_def steady_invoke)

lemma ticks_InputSetFlag [simp]: "gCurrentTicks (InputSetFlag d b g) = gCurrentTicks g"
  by (simp add: InputSetFlag_def)

lemma date_InputSetFlag [simp]: "date (InputSetFlag d b g) = date g"
  by (simp add: InputSetFlag_def)

lemma trace_InputSetFlag [simp]:
  "trace (InputSetFlag d b g) =
     trace g @ [(gCurrentTicks g, InputSetFlag_VIEWPORT_SCROLLING b)]"
  by (simp add: InputSetFlag_def)

lemma steady_InputSetFlag:
  "steady d \<Longrightarrow>
   inputs (world (InputSetFlag d b g)) = inputs ((world g)\<lparr>INPUT_FLAG_VIEWPORT_SCROLLING := b\<rparr>)"
  by (simp add: InputSetFlag_def steady_invoke)

lemma ticks_CreateStateSnapshot [simp]:
  "gCurrentTicks (CreateStateSnapshot d g) = gCurrentTicks g"
  by (simp add: CreateStateSnapshot_def Let_def)

lemma date_CreateStateSnapshot [simp]: "date (CreateStateSnapshot d g) = date g"
  by (simp add: CreateStateSnapshot_def Let_def)

lemma steady_CreateStateSnapshot:
  "steady d \<Longrightarrow> inputs (world (CreateStateSnapshot d g)) = inputs (world g)"
  by (simp add: CreateStateSnapshot_def Let_def steady_invoke)

lemma trace_CreateStateSnapshot:
  "trace (CreateStateSnapshot d g) =
     trace g @ map (Pair (gCurrentTicks g))
       [PROFILED_FUNCTION fn_CreateStateSnapshot, CreateSnapshot, Capture,
        LinkSnapshot (gCurrentTicks g) (scenarioRand_s0 (world (at_link d g)))]"
  by (simp add: CreateStateSnapshot_def Let_def invokes_def at_link_def)

subsection \<open>UpdateLogic\<close>

lemma ticks_UpdateLogic_prologue [simp]:
  "gCurrentTicks (UpdateLogic_prologue d g) = gCurrentTicks g"
  by (simp add: UpdateLogic_prologue_def Let_def)

lemma date_UpdateLogic_prologue [simp]: "date (UpdateLogic_prologue d g) = date g"
  by (simp add: UpdateLogic_prologue_def Let_def)

lemma trace_UpdateLogic_prologue:
  "trace (UpdateLogic_prologue d g) =
     trace g @ map (Pair (gCurrentTicks g))
       [PROFILED_FUNCTION fn_UpdateLogic, ReplayManager_Update, network_update]"
  by (simp add: UpdateLogic_prologue_def Let_def)

lemma steady_UpdateLogic_prologue:
  "steady d \<Longrightarrow> inputs (world (UpdateLogic_prologue d g)) = inputs (world g)"
  by (simp add: UpdateLogic_prologue_def Let_def steady_invoke)

lemma UpdateLogic_network_None_iff:
  "UpdateLogic_network d g = None \<longleftrightarrow>
     network_mode (world g) = NETWORK_MODE_CLIENT
     \<and> network_server_tick (world g) = gCurrentTicks g"
  by (simp add: UpdateLogic_network_def Let_def)

lemma ticks_UpdateLogic_network:
  "UpdateLogic_network d g = Some g' \<Longrightarrow> gCurrentTicks g' = gCurrentTicks g"
  by (auto simp add: UpdateLogic_network_def Let_def split: if_splits)

lemma date_UpdateLogic_network:
  "UpdateLogic_network d g = Some g' \<Longrightarrow> date g' = date g"
  by (auto simp add: UpdateLogic_network_def Let_def split: if_splits)

lemma steady_UpdateLogic_network:
  "steady d \<Longrightarrow> UpdateLogic_network d g = Some g' \<Longrightarrow> inputs (world g') = inputs (world g)"
  by (auto simp add: UpdateLogic_network_def Let_def steady_invoke steady_CreateStateSnapshot
      split: if_splits)

lemma trace_UpdateLogic_network:
  "UpdateLogic_network d g = Some g' \<Longrightarrow>
     trace g' = trace g @ since g g'
     \<and> list_all (\<lambda>e. fst e = gCurrentTicks g \<and> network_part (snd e)) (since g g')"
  by (auto simp add: UpdateLogic_network_def Let_def trace_CreateStateSnapshot network_part_def
      since_def split: if_splits)

lemma ticks_UpdateLogic_pipeline:
  "gCurrentTicks (UpdateLogic_pipeline d g) = gCurrentTicks g + 1"
  by (simp add: UpdateLogic_pipeline_def Let_def)

lemma date_UpdateLogic_pipeline:
  "date (UpdateLogic_pipeline d g) =
     \<lparr>monthsElapsed = gDateMonthsElapsed (world (invoke d DateUpdate g)),
      monthTicks = gDateMonthTicks (world (invoke d DateUpdate g))\<rparr>"
  by (simp add: UpdateLogic_pipeline_def Let_def)

lemma steady_UpdateLogic_pipeline:
  "steady d \<Longrightarrow> inputs (world (UpdateLogic_pipeline d g)) = inputs (world g)"
  by (simp add: UpdateLogic_pipeline_def Let_def steady_invoke steady_invokes)

lemma trace_UpdateLogic_pipeline:
  "\<exists>evs. trace (UpdateLogic_pipeline d g) =
      trace g @ evs
        @ map (Pair (gCurrentTicks g + 1)) (hooks_fired d g (UpdateLogic_pipeline d g))
    \<and> list_all (\<lambda>e. fst e = gCurrentTicks g \<and> pipeline_part (snd e)) evs"
  by (simp add: UpdateLogic_pipeline_def Let_def hooks_fired_def pipeline_part_def
      simulation_step_def)

lemma UpdateLogic_early:
  "UpdateLogic_returns_early d g \<Longrightarrow> UpdateLogic d g = UpdateLogic_prologue d g"
  by (simp add: UpdateLogic_def UpdateLogic_returns_early_def Let_def
      UpdateLogic_network_None_iff[THEN iffD2])

lemma UpdateLogic_complete:
  "\<not> UpdateLogic_returns_early d g \<Longrightarrow>
     \<exists>g2. UpdateLogic_network d (UpdateLogic_prologue d g) = Some g2
          \<and> UpdateLogic d g = UpdateLogic_pipeline d g2"
  by (cases "UpdateLogic_network d (UpdateLogic_prologue d g)")
     (simp_all add: UpdateLogic_def UpdateLogic_returns_early_def Let_def
       UpdateLogic_network_None_iff)

lemma ticks_UpdateLogic:
  "gCurrentTicks (UpdateLogic d g) =
     (if UpdateLogic_returns_early d g then gCurrentTicks g else gCurrentTicks g + 1)"
proof (cases "UpdateLogic_returns_early d g")
  case True
  then show ?thesis by (simp add: UpdateLogic_early)
next
  case False
  then obtain g2 where n: "UpdateLogic_network d (UpdateLogic_prologue d g) = Some g2"
    and u: "UpdateLogic d g = UpdateLogic_pipeline d g2"
    using UpdateLogic_complete by blast
  from n have "gCurrentTicks g2 = gCurrentTicks g"
    by (simp add: ticks_UpdateLogic_network)
  with u False show ?thesis by (simp add: ticks_UpdateLogic_pipeline)
qed

lemma steady_UpdateLogic:
  assumes "steady d"
  shows "inputs (world (UpdateLogic d g)) = inputs (world g)"
proof (cases "UpdateLogic_returns_early d g")
  case True
  then show ?thesis using assms by (simp add: UpdateLogic_early steady_UpdateLogic_prologue)
next
  case False
  then obtain g2 where n: "UpdateLogic_network d (UpdateLogic_prologue d g) = Some g2"
    and u: "UpdateLogic d g = UpdateLogic_pipeline d g2"
    using UpdateLogic_complete by blast
  from n assms have "inputs (world g2) = inputs (world (UpdateLogic_prologue d g))"
    by (rule steady_UpdateLogic_network[rotated])
  with u assms show ?thesis
    by (simp add: steady_UpdateLogic_pipeline steady_UpdateLogic_prologue)
qed

lemma steady_returns_early:
  "steady d \<Longrightarrow>
   UpdateLogic_returns_early d g \<longleftrightarrow>
     network_mode (world g) = NETWORK_MODE_CLIENT
     \<and> network_server_tick (world g) = gCurrentTicks g"
  using steady_UpdateLogic_prologue[of d g]
  by (simp add: UpdateLogic_returns_early_def Let_def inputs_eq_iff)

text \<open>The calls of one update, in order.\<close>

lemma trace_UpdateLogic:
  "\<exists>net steps.
     trace (UpdateLogic d g) =
       trace g
       @ map (Pair (gCurrentTicks g))
           [PROFILED_FUNCTION fn_UpdateLogic, ReplayManager_Update, network_update]
       @ net @ steps
       @ map (Pair (gCurrentTicks g + 1))
           (if UpdateLogic_returns_early d g then [] else hooks_fired d g (UpdateLogic d g))
     \<and> list_all (\<lambda>e. fst e = gCurrentTicks g \<and> network_part (snd e)) net
     \<and> list_all (\<lambda>e. fst e = gCurrentTicks g \<and> pipeline_part (snd e)) steps"
proof (cases "UpdateLogic_returns_early d g")
  case True
  then have "trace (UpdateLogic d g) =
       trace g @ map (Pair (gCurrentTicks g))
           [PROFILED_FUNCTION fn_UpdateLogic, ReplayManager_Update, network_update] @ [] @ []
       @ map (Pair (gCurrentTicks g + 1))
           (if UpdateLogic_returns_early d g then [] else hooks_fired d g (UpdateLogic d g))"
    by (simp add: UpdateLogic_early trace_UpdateLogic_prologue)
  moreover have "list_all (\<lambda>e. fst e = gCurrentTicks g \<and> network_part (snd e)) []"
    "list_all (\<lambda>e. fst e = gCurrentTicks g \<and> pipeline_part (snd e)) []" by simp_all
  ultimately show ?thesis by blast
next
  case False
  then obtain g2 where n: "UpdateLogic_network d (UpdateLogic_prologue d g) = Some g2"
    and u: "UpdateLogic d g = UpdateLogic_pipeline d g2"
    using UpdateLogic_complete by blast
  let ?p = "UpdateLogic_prologue d g"
  from n have t2: "gCurrentTicks g2 = gCurrentTicks g" and d2: "date g2 = date g"
    by (simp_all add: ticks_UpdateLogic_network date_UpdateLogic_network)
  from n have net: "trace g2 = trace ?p @ since ?p g2"
    "list_all (\<lambda>e. fst e = gCurrentTicks g \<and> network_part (snd e)) (since ?p g2)"
    using trace_UpdateLogic_network[of d ?p g2] by simp_all
  obtain steps where st:
    "trace (UpdateLogic_pipeline d g2) =
       trace g2 @ steps
        @ map (Pair (gCurrentTicks g2 + 1)) (hooks_fired d g2 (UpdateLogic_pipeline d g2))"
    "list_all (\<lambda>e. fst e = gCurrentTicks g2 \<and> pipeline_part (snd e)) steps"
    using trace_UpdateLogic_pipeline[of d g2] by blast
  have h: "hooks_fired d g2 (UpdateLogic_pipeline d g2) = hooks_fired d g (UpdateLogic d g)"
    by (simp add: hooks_fired_def d2 u)
  have "trace (UpdateLogic d g) =
       trace g
       @ map (Pair (gCurrentTicks g))
           [PROFILED_FUNCTION fn_UpdateLogic, ReplayManager_Update, network_update]
       @ since ?p g2 @ steps
       @ map (Pair (gCurrentTicks g + 1))
           (if UpdateLogic_returns_early d g then [] else hooks_fired d g (UpdateLogic d g))"
    using False st(1) net(1) by (simp add: u t2 h trace_UpdateLogic_prologue)
  with net(2) st(2) show ?thesis unfolding t2 by blast
qed

lemma count_UpdateLogic:
  assumes "\<And>c. P c \<Longrightarrow> \<not> network_part c \<and> \<not> pipeline_part c \<and> \<not> is_hook c"
  shows "count_calls P (trace (UpdateLogic d g)) =
           count_calls P (trace g)
           + length (filter P [PROFILED_FUNCTION fn_UpdateLogic, ReplayManager_Update,
                               network_update])"
proof -
  obtain net steps where t:
     "trace (UpdateLogic d g) =
       trace g
       @ map (Pair (gCurrentTicks g))
           [PROFILED_FUNCTION fn_UpdateLogic, ReplayManager_Update, network_update]
       @ net @ steps
       @ map (Pair (gCurrentTicks g + 1))
           (if UpdateLogic_returns_early d g then [] else hooks_fired d g (UpdateLogic d g))"
     and n: "list_all (\<lambda>e. fst e = gCurrentTicks g \<and> network_part (snd e)) net"
     and s: "list_all (\<lambda>e. fst e = gCurrentTicks g \<and> pipeline_part (snd e)) steps"
    using trace_UpdateLogic[of d g] by blast
  have "count_calls P net = 0"
    by (rule count_calls_none, rule list_all_weaken[OF n]) (use assms in blast)
  moreover have "count_calls P steps = 0"
    by (rule count_calls_none, rule list_all_weaken[OF s]) (use assms in blast)
  moreover have "count_calls P (map (Pair (gCurrentTicks g + 1))
           (if UpdateLogic_returns_early d g then [] else hooks_fired d g (UpdateLogic d g))) = 0"
    using assms[of "HookEngine_Call INTERVAL_TICK True"] assms[of "HookEngine_Call INTERVAL_DAY True"]
    by (auto simp add: hooks_fired_def is_hook_def)
  ultimately show ?thesis
    unfolding t count_calls_append count_calls_stamped by simp
qed

lemma updates_run_UpdateLogic:
  "updates_run (trace (UpdateLogic d g)) = updates_run (trace g) + 1"
  unfolding updates_run_def count_call_def
  by (subst count_UpdateLogic)
     (auto simp add: network_part_def pipeline_part_def simulation_step_def is_hook_def)

text \<open>The calls of the pipeline, one by one.\<close>

lemma trace_UpdateLogic_pipeline_order:
  "\<exists>park.
     trace (UpdateLogic_pipeline d g) =
       trace g
       @ map (Pair (gCurrentTicks g))
           ([DateUpdate, ScenarioUpdate, ClimateUpdate, MapUpdateTiles,
             MapRemoveProvisionalElements, MapUpdatePathWideFlags, PeepUpdateAll,
             MapRestoreProvisionalElements, VehicleUpdateAll, UpdateAllMiscEntities,
             Ride_UpdateAll]
            @ park
            @ [ResearchUpdate, RideRatingsUpdateAll, RideMeasurementsUpdate,
               News_UpdateCurrentItem, MapAnimationInvalidateAll, VehicleSoundsUpdate,
               PeepUpdateCrowdNoise, ClimateUpdateSound, EditorOpenWindowsForCurrentStep])
       @ map (Pair (gCurrentTicks g))
           [GameActions_ProcessQueue, network_process_pending, network_flush]
       @ map (Pair (gCurrentTicks g + 1)) (hooks_fired d g (UpdateLogic_pipeline d g))
     \<and> (park = [] \<or> park = [Park_Update (date (UpdateLogic_pipeline d g))])"
proof -
  let ?g2 = "(invoke d DateUpdate g)
               \<lparr>date := \<lparr>monthsElapsed = gDateMonthsElapsed (world (invoke d DateUpdate g)),
                         monthTicks = gDateMonthTicks (world (invoke d DateUpdate g))\<rparr>\<rparr>"
  let ?g3 = "invokes d
                 [ScenarioUpdate, ClimateUpdate, MapUpdateTiles,
                  MapRemoveProvisionalElements, MapUpdatePathWideFlags, PeepUpdateAll,
                  MapRestoreProvisionalElements, VehicleUpdateAll, UpdateAllMiscEntities,
                  Ride_UpdateAll] ?g2"
  show ?thesis
  proof (cases "gScreenFlags (world ?g3) AND SCREEN_FLAGS_EDITOR d = 0")
    case True
    show ?thesis
      by (rule exI[of _ "[Park_Update (date (UpdateLogic_pipeline d g))]"])
         (use True in \<open>simp add: UpdateLogic_pipeline_def Let_def hooks_fired_def\<close>)
  next
    case False
    show ?thesis
      by (rule exI[of _ "[]"])
         (use False in \<open>simp add: UpdateLogic_pipeline_def Let_def hooks_fired_def\<close>)
  qed
qed

lemma tail_UpdateLogic:
  assumes "\<not> UpdateLogic_returns_early d g"
  shows "\<exists>before.
           since g (UpdateLogic d g) =
             before
             @ map (Pair (gCurrentTicks g))
                 [GameActions_ProcessQueue, network_process_pending, network_flush]
             @ map (Pair (gCurrentTicks g + 1)) (hooks_fired d g (UpdateLogic d g))
           \<and> 15 \<le> count_calls simulation_step before"
proof -
  let ?p = "UpdateLogic_prologue d g"
  obtain g2 where n: "UpdateLogic_network d ?p = Some g2"
    and u: "UpdateLogic d g = UpdateLogic_pipeline d g2"
    using UpdateLogic_complete[OF assms] by blast
  from n have t2: "gCurrentTicks g2 = gCurrentTicks g" and d2: "date g2 = date g"
    by (simp_all add: ticks_UpdateLogic_network date_UpdateLogic_network)
  from n have net: "trace g2 = trace ?p @ since ?p g2"
    using trace_UpdateLogic_network[of d ?p g2] by simp
  obtain park where st:
    "trace (UpdateLogic_pipeline d g2) =
       trace g2
       @ map (Pair (gCurrentTicks g2))
           ([DateUpdate, ScenarioUpdate, ClimateUpdate, MapUpdateTiles,
             MapRemoveProvisionalElements, MapUpdatePathWideFlags, PeepUpdateAll,
             MapRestoreProvisionalElements, VehicleUpdateAll, UpdateAllMiscEntities,
             Ride_UpdateAll]
            @ park
            @ [ResearchUpdate, RideRatingsUpdateAll, RideMeasurementsUpdate,
               News_UpdateCurrentItem, MapAnimationInvalidateAll, VehicleSoundsUpdate,
               PeepUpdateCrowdNoise, ClimateUpdateSound, EditorOpenWindowsForCurrentStep])
       @ map (Pair (gCurrentTicks g2))
           [GameActions_ProcessQueue, network_process_pending, network_flush]
       @ map (Pair (gCurrentTicks g2 + 1)) (hooks_fired d g2 (UpdateLogic_pipeline d g2))"
    using trace_UpdateLogic_pipeline_order[of d g2] by blast
  have h: "hooks_fired d g2 (UpdateLogic_pipeline d g2) = hooks_fired d g (UpdateLogic d g)"
    by (simp add: hooks_fired_def d2 u)
  let ?before = "map (Pair (gCurrentTicks g))
           [PROFILED_FUNCTION fn_UpdateLogic, ReplayManager_Update, network_update]
       @ since ?p g2
       @ map (Pair (gCurrentTicks g))
           ([DateUpdate, ScenarioUpdate, ClimateUpdate, MapUpdateTiles,
             MapRemoveProvisionalElements, MapUpdatePathWideFlags, PeepUpdateAll,
             MapRestoreProvisionalElements, VehicleUpdateAll, UpdateAllMiscEntities,
             Ride_UpdateAll]
            @ park
            @ [ResearchUpdate, RideRatingsUpdateAll, RideMeasurementsUpdate,
               News_UpdateCurrentItem, MapAnimationInvalidateAll, VehicleSoundsUpdate,
               PeepUpdateCrowdNoise, ClimateUpdateSound, EditorOpenWindowsForCurrentStep])"
  have "trace (UpdateLogic d g) =
          trace g @ ?before
             @ map (Pair (gCurrentTicks g))
                 [GameActions_ProcessQueue, network_process_pending, network_flush]
             @ map (Pair (gCurrentTicks g + 1)) (hooks_fired d g (UpdateLogic d g))"
    unfolding u st net t2 h by (simp add: trace_UpdateLogic_prologue)
  then have s: "since g (UpdateLogic d g) =
          ?before
             @ map (Pair (gCurrentTicks g))
                 [GameActions_ProcessQueue, network_process_pending, network_flush]
             @ map (Pair (gCurrentTicks g + 1)) (hooks_fired d g (UpdateLogic d g))"
    by (intro since_append) simp
  have "15 \<le> count_calls simulation_step ?before"
    by (simp add: count_calls_stamped simulation_step_def)
  with s show ?thesis by blast
qed

subsection \<open>Consecutive updates\<close>

lemma steady_UpdateLogic_times:
  "steady d \<Longrightarrow> inputs (world (UpdateLogic_times d n g)) = inputs (world g)"
  by (induction n arbitrary: g) (simp_all add: steady_UpdateLogic)

lemma updates_run_UpdateLogic_times:
  "updates_run (trace (UpdateLogic_times d n g)) = updates_run (trace g) + n"
  by (induction n arbitrary: g) (simp_all add: updates_run_UpdateLogic)

lemma unat_minus_one_word: "(x :: u32) \<noteq> 0 \<Longrightarrow> unat (x - 1) = unat x - 1"
  by (simp add: unat_minus_one)

lemma ticks_UpdateLogic_times:
  assumes "steady d"
    and "network_mode (world g) \<noteq> NETWORK_MODE_CLIENT
         \<or> n \<le> unat (network_server_tick (world g) - gCurrentTicks g)"
  shows "gCurrentTicks (UpdateLogic_times d n g) = gCurrentTicks g + of_nat n"
  using assms(2)
proof (induction n arbitrary: g)
  case 0
  then show ?case by simp
next
  case (Suc n)
  let ?g = "UpdateLogic d g"
  have i: "inputs (world ?g) = inputs (world g)"
    using assms(1) by (rule steady_UpdateLogic)
  have ne: "\<not> UpdateLogic_returns_early d g"
    using Suc.prems by (auto simp add: steady_returns_early[OF assms(1)])
  then have t: "gCurrentTicks ?g = gCurrentTicks g + 1"
    by (simp add: ticks_UpdateLogic)
  have "network_mode (world ?g) \<noteq> NETWORK_MODE_CLIENT
         \<or> n \<le> unat (network_server_tick (world ?g) - gCurrentTicks ?g)"
  proof (cases "network_mode (world g) = NETWORK_MODE_CLIENT")
    case False
    with i show ?thesis by (simp add: inputs_eq_iff)
  next
    case True
    with Suc.prems have le: "Suc n \<le> unat (network_server_tick (world g) - gCurrentTicks g)"
      by simp
    then have "network_server_tick (world g) - gCurrentTicks g \<noteq> 0"
      by auto
    then have "unat (network_server_tick (world g) - gCurrentTicks g - 1)
                 = unat (network_server_tick (world g) - gCurrentTicks g) - 1"
      by (rule unat_minus_one_word)
    moreover have "network_server_tick (world ?g) - gCurrentTicks ?g
                     = network_server_tick (world g) - gCurrentTicks g - 1"
      using i t by (simp add: inputs_eq_iff)
    moreover have "n \<le> unat (network_server_tick (world g) - gCurrentTicks g) - 1"
      using le by arith
    ultimately have "n \<le> unat (network_server_tick (world ?g) - gCurrentTicks ?g)"
      by simp
    then show ?thesis ..
  qed
  from Suc.IH[OF this] show ?case by (simp add: t)
qed

subsection \<open>The loop of Tick\<close>

declare update_loop.simps(2) [simp del]

lemma no_break_cong: "inputs w' = inputs w \<Longrightarrow> no_break w' = no_break w"
  by (simp add: no_break_def inputs_eq_iff)

lemma update_loop_runs:
  assumes "steady d" and "no_break (world g)"
  shows "update_loop d n g = UpdateLogic_times d n g"
  using assms(2)
proof (induction n arbitrary: g)
  case 0
  then show ?case by simp
next
  case (Suc n)
  have i: "inputs (world (UpdateLogic d g)) = inputs (world g)"
    using assms(1) by (rule steady_UpdateLogic)
  have nb: "no_break (world (UpdateLogic d g))"
    using Suc.prems no_break_cong[OF i] by simp
  from Suc.IH[OF nb] nb show ?case
    by (auto simp add: update_loop.simps(2) Let_def no_break_def)
qed

lemma update_loop_breaks:
  assumes "steady d" and "gGameSpeed (world g) = 1"
    and "inputState (world g) = InputState_interactive"
  shows "update_loop d (Suc n) g = UpdateLogic d g"
proof -
  have "inputs (world (UpdateLogic d g)) = inputs (world g)"
    using assms(1) by (rule steady_UpdateLogic)
  with assms(2,3) show ?thesis by (simp add: update_loop.simps(2) Let_def inputs_eq_iff)
qed

lemma update_loop_Suc_cases:
  "update_loop d (Suc n) g = UpdateLogic d g
   \<or> update_loop d (Suc n) g = InputSetFlag d False (UpdateLogic d g)
   \<or> update_loop d (Suc n) g = update_loop d n (UpdateLogic d g)"
  by (simp add: update_loop.simps(2) Let_def)

lemma updates_run_append [simp]:
  "updates_run (xs @ ys) = updates_run xs + updates_run ys"
  by (simp add: updates_run_def count_call_def)

lemma updates_run_Nil [simp]: "updates_run [] = 0"
  by (simp add: updates_run_def count_call_def)

lemma updates_run_Cons [simp]:
  "updates_run (e # evs) =
     (if snd e = PROFILED_FUNCTION fn_UpdateLogic then 1 else 0) + updates_run evs"
  by (simp add: updates_run_def count_call_def)

lemma updates_run_update_loop_le:
  "updates_run (trace g) \<le> updates_run (trace (update_loop d n g))
   \<and> updates_run (trace (update_loop d n g)) \<le> updates_run (trace g) + n"
proof (induction n arbitrary: g)
  case 0
  then show ?case by simp
next
  case (Suc n)
  have u: "updates_run (trace (UpdateLogic d g)) = updates_run (trace g) + 1"
    by (rule updates_run_UpdateLogic)
  from update_loop_Suc_cases[of d n g] show ?case
  proof (elim disjE)
    assume "update_loop d (Suc n) g = UpdateLogic d g"
    with u show ?thesis by simp
  next
    assume "update_loop d (Suc n) g = InputSetFlag d False (UpdateLogic d g)"
    with u show ?thesis by simp
  next
    assume "update_loop d (Suc n) g = update_loop d n (UpdateLogic d g)"
    with u Suc.IH[of "UpdateLogic d g"] show ?thesis by simp
  qed
qed

lemma updates_run_update_loop_one:
  "updates_run (trace (update_loop d (Suc 0) g)) = updates_run (trace g) + 1"
  using update_loop_Suc_cases[of d 0 g] updates_run_UpdateLogic[of d g]
  by (elim disjE) simp_all

lemma inputs_flag_cong:
  "inputs w' = inputs w \<Longrightarrow>
   inputs (w'\<lparr>INPUT_FLAG_VIEWPORT_SCROLLING := b\<rparr>) = inputs (w\<lparr>INPUT_FLAG_VIEWPORT_SCROLLING := b\<rparr>)"
  by (simp add: inputs_def)

lemma inputs_flag_same:
  "inputs (w\<lparr>INPUT_FLAG_VIEWPORT_SCROLLING := INPUT_FLAG_VIEWPORT_SCROLLING w\<rparr>) = inputs w"
  by (simp add: inputs_def)

lemma steady_update_loop:
  assumes "steady d"
  shows "\<exists>b. inputs (world (update_loop d n g))
              = inputs ((world g)\<lparr>INPUT_FLAG_VIEWPORT_SCROLLING := b\<rparr>)"
proof (induction n arbitrary: g)
  case 0
  have "inputs (world (update_loop d 0 g))
          = inputs ((world g)\<lparr>INPUT_FLAG_VIEWPORT_SCROLLING :=
                                INPUT_FLAG_VIEWPORT_SCROLLING (world g)\<rparr>)"
    by (simp add: inputs_flag_same)
  then show ?case by blast
next
  case (Suc n)
  let ?g = "UpdateLogic d g"
  have i: "inputs (world ?g) = inputs (world g)"
    using assms by (rule steady_UpdateLogic)
  from update_loop_Suc_cases[of d n g] show ?case
  proof (elim disjE)
    assume "update_loop d (Suc n) g = ?g"
    with i have "inputs (world (update_loop d (Suc n) g))
          = inputs ((world g)\<lparr>INPUT_FLAG_VIEWPORT_SCROLLING :=
                                INPUT_FLAG_VIEWPORT_SCROLLING (world g)\<rparr>)"
      by (simp add: inputs_flag_same)
    then show ?thesis by blast
  next
    assume "update_loop d (Suc n) g = InputSetFlag d False ?g"
    then have "inputs (world (update_loop d (Suc n) g))
          = inputs ((world g)\<lparr>INPUT_FLAG_VIEWPORT_SCROLLING := False\<rparr>)"
      by (simp add: steady_InputSetFlag[OF assms] inputs_flag_cong[OF i])
    then show ?thesis by blast
  next
    assume a: "update_loop d (Suc n) g = update_loop d n ?g"
    obtain b where "inputs (world (update_loop d n ?g))
              = inputs ((world ?g)\<lparr>INPUT_FLAG_VIEWPORT_SCROLLING := b\<rparr>)"
      using Suc.IH by blast
    with a have "inputs (world (update_loop d (Suc n) g))
              = inputs ((world g)\<lparr>INPUT_FLAG_VIEWPORT_SCROLLING := b\<rparr>)"
      by (simp add: inputs_flag_cong[OF i])
    then show ?thesis by blast
  qed
qed

subsection \<open>The parts of Tick\<close>

lemma ticks_Tick_prologue [simp]: "gCurrentTicks (Tick_prologue d g) = gCurrentTicks g"
  by (simp add: Tick_prologue_def Let_def)

lemma date_Tick_prologue [simp]: "date (Tick_prologue d g) = date g"
  by (simp add: Tick_prologue_def Let_def)

lemma steady_Tick_prologue:
  "steady d \<Longrightarrow> inputs (world (Tick_prologue d g)) = inputs (world g)"
  by (simp add: Tick_prologue_def Let_def steady_invoke)

lemma count_calls_part:
  assumes "trace g' = trace g @ evs" and "list_all (\<lambda>e. Q (snd e)) evs"
    and "\<And>c. P c \<Longrightarrow> \<not> Q c"
  shows "count_calls P (trace g') = count_calls P (trace g)"
proof -
  have "list_all (\<lambda>e. \<not> P (snd e)) evs"
    by (rule list_all_weaken[OF assms(2)]) (use assms(3) in blast)
  then have "count_calls P evs = 0" by (rule count_calls_none)
  with assms(1) show ?thesis by simp
qed

lemma trace_Tick_prologue:
  "trace (Tick_prologue d g) = trace g @ since g (Tick_prologue d g)
   \<and> list_all (\<lambda>e. driver_part (snd e)) (since g (Tick_prologue d g))"
  by (simp add: Tick_prologue_def Let_def since_def driver_part_def)

lemma count_Tick_prologue:
  "(\<And>c. P c \<Longrightarrow> \<not> driver_part c) \<Longrightarrow>
   count_calls P (trace (Tick_prologue d g)) = count_calls P (trace g)"
  using trace_Tick_prologue[of d g] count_calls_part[of "Tick_prologue d g" g _ driver_part P]
  by blast

lemma Tick_numUpdates_cong:
  "inputs (world g') = inputs (world g) \<Longrightarrow> gCurrentTicks g' = gCurrentTicks g \<Longrightarrow>
   Tick_numUpdates d g' = Tick_numUpdates d g"
  by (simp add: Tick_numUpdates_def inputs_eq_iff)

lemma Tick_isPaused_cong:
  "inputs (world g') = inputs (world g) \<Longrightarrow> Tick_isPaused g' = Tick_isPaused g"
  by (simp add: Tick_isPaused_def GameIsPaused_def inputs_eq_iff)

lemma ticks_Tick_epilogue [simp]:
  "gCurrentTicks (Tick_epilogue d r g) = gCurrentTicks g"
  by (simp add: Tick_epilogue_def Let_def)

lemma date_Tick_epilogue [simp]: "date (Tick_epilogue d r g) = date g"
  by (simp add: Tick_epilogue_def Let_def)

lemma trace_Tick_epilogue:
  "trace (Tick_epilogue d r g) = trace g @ since g (Tick_epilogue d r g)
   \<and> list_all (\<lambda>e. driver_part (snd e)) (since g (Tick_epilogue d r g))"
  by (simp add: Tick_epilogue_def Let_def since_def driver_part_def)

lemma count_Tick_epilogue:
  "(\<And>c. P c \<Longrightarrow> \<not> driver_part c) \<Longrightarrow>
   count_calls P (trace (Tick_epilogue d r g)) = count_calls P (trace g)"
  using trace_Tick_epilogue[of d r g]
    count_calls_part[of "Tick_epilogue d r g" g _ driver_part P]
  by blast

lemma gDoSingleUpdate_Tick_epilogue [simp]:
  "gDoSingleUpdate (world (Tick_epilogue d r g)) = False"
  by (simp add: Tick_epilogue_def Let_def)

lemma updates_run_Tick_prologue [simp]:
  "updates_run (trace (Tick_prologue d g)) = updates_run (trace g)"
  unfolding updates_run_def count_call_def
  by (rule count_Tick_prologue) (simp add: driver_part_def)

lemma updates_run_Tick_epilogue [simp]:
  "updates_run (trace (Tick_epilogue d r g)) = updates_run (trace g)"
  unfolding updates_run_def count_call_def
  by (rule count_Tick_epilogue) (simp add: driver_part_def)

lemma updates_run_PauseToggle [simp]:
  "updates_run (trace (PauseToggle d g)) = updates_run (trace g)"
  by simp

subsection \<open>The three ways through Tick\<close>

lemma Tick_not_paused:
  assumes "steady d" and "\<not> Tick_isPaused g"
  shows "Tick d g =
           Tick_epilogue d False
             (update_loop d (unat (Tick_numUpdates d g)) (Tick_prologue d g))"
proof -
  let ?g1 = "Tick_prologue d g"
  have i: "inputs (world ?g1) = inputs (world g)"
    using assms(1) by (rule steady_Tick_prologue)
  have p: "\<not> Tick_isPaused ?g1"
    using assms(2) Tick_isPaused_cong[OF i] by simp
  have n: "Tick_numUpdates d ?g1 = Tick_numUpdates d g"
    by (rule Tick_numUpdates_cong[OF i]) simp
  show ?thesis
    by (simp add: Tick_def Let_def Tick_pause_def p n)
qed

lemma Tick_single_step:
  assumes "steady d" and "gGamePaused (world g)" and "gDoSingleUpdate (world g)"
    and "network_mode (world g) = NETWORK_MODE_NONE"
  shows "Tick d g =
           Tick_epilogue d True (update_loop d (Suc 0) (PauseToggle d (Tick_prologue d g)))"
proof -
  let ?g1 = "Tick_prologue d g"
  have i: "inputs (world ?g1) = inputs (world g)"
    using assms(1) by (rule steady_Tick_prologue)
  have p: "Tick_isPaused ?g1"
    using assms(2,4) i by (simp add: Tick_isPaused_def GameIsPaused_def inputs_eq_iff)
  have s: "gDoSingleUpdate (world ?g1)" "network_mode (world ?g1) = NETWORK_MODE_NONE"
    using assms(3,4) i by (simp_all add: inputs_eq_iff)
  show ?thesis
    by (simp add: Tick_def Let_def Tick_pause_def p s)
qed


subsection \<open>32-bit arithmetic\<close>


lemma unat_add_small:
  "unat (t :: u32) + k < 2 ^ 32 \<Longrightarrow> unat (t + of_nat k) = unat t + k"
  by (simp add: unat_word_ariths unat_of_nat)



lemma unat_sub_wrapped:
  assumes "(s :: u32) < t"
  shows "unat (s - t) = 2 ^ 32 - (unat t - unat s)"
proof -
  have "unat s < unat t" using assms by (simp add: word_less_nat_alt)
  moreover have "unat t < 2 ^ 32" using unsigned_less[of t] by simp
  ultimately show ?thesis
    by (simp add: unat_sub_if_size word_size)
qed

subsection \<open>How many updates a frame asks for\<close>

lemma Tick_numUpdates_client:
  assumes "network_mode (world g) = NETWORK_MODE_CLIENT"
    and "network_status (world g) = NETWORK_STATUS_CONNECTED"
    and "network_authstatus (world g) = NetworkAuth_Ok"
  shows "unat (Tick_numUpdates d g)
           = min (unat (network_server_tick (world g) - gCurrentTicks g)) 10"
proof -
  let ?v = "network_server_tick (world g) - gCurrentTicks g"
  have "Tick_numUpdates d g = (if 10 < ?v then 10 else ?v)"
    using assms by (simp add: Tick_numUpdates_def clamp_u32_def)
  moreover have "10 < ?v \<longleftrightarrow> 10 < unat ?v"
    by (simp add: word_less_nat_alt)
  ultimately show ?thesis by (simp add: min_def)
qed


subsection \<open>Frames that run their updates\<close>

lemma Tick_runs:
  assumes "steady d" and "\<not> Tick_isPaused g" and "no_break (world g)"
  shows "Tick d g =
           Tick_epilogue d False
             (UpdateLogic_times d (unat (Tick_numUpdates d g)) (Tick_prologue d g))"
proof -
  have i: "inputs (world (Tick_prologue d g)) = inputs (world g)"
    using assms(1) by (rule steady_Tick_prologue)
  have "no_break (world (Tick_prologue d g))"
    using assms(3) no_break_cong[OF i] by simp
  with assms(1) have "update_loop d (unat (Tick_numUpdates d g)) (Tick_prologue d g)
      = UpdateLogic_times d (unat (Tick_numUpdates d g)) (Tick_prologue d g)"
    by (rule update_loop_runs)
  with Tick_not_paused[OF assms(1,2)] show ?thesis by simp
qed


lemma ticks_Tick_runs:
  assumes "steady d" and "\<not> Tick_isPaused g" and "no_break (world g)"
    and "network_mode (world g) \<noteq> NETWORK_MODE_CLIENT
         \<or> unat (Tick_numUpdates d g) \<le> unat (network_server_tick (world g) - gCurrentTicks g)"
  shows "gCurrentTicks (Tick d g) = gCurrentTicks g + of_nat (unat (Tick_numUpdates d g))"
proof -
  let ?g1 = "Tick_prologue d g"
  have i: "inputs (world ?g1) = inputs (world g)"
    using assms(1) by (rule steady_Tick_prologue)
  have "network_mode (world ?g1) \<noteq> NETWORK_MODE_CLIENT
         \<or> unat (Tick_numUpdates d g)
              \<le> unat (network_server_tick (world ?g1) - gCurrentTicks ?g1)"
    using assms(4) i by (simp add: inputs_eq_iff)
  with assms(1) have "gCurrentTicks (UpdateLogic_times d (unat (Tick_numUpdates d g)) ?g1)
      = gCurrentTicks ?g1 + of_nat (unat (Tick_numUpdates d g))"
    by (rule ticks_UpdateLogic_times)
  then show ?thesis by (simp add: Tick_runs[OF assms(1,2,3)])
qed

lemma Tick_breaks:
  assumes "steady d" and "\<not> Tick_isPaused g" and "gGameSpeed (world g) = 1"
    and "inputState (world g) = InputState_interactive" and "Tick_numUpdates d g \<noteq> 0"
  shows "Tick d g = Tick_epilogue d False (UpdateLogic d (Tick_prologue d g))"
proof -
  let ?g1 = "Tick_prologue d g"
  have i: "inputs (world ?g1) = inputs (world g)"
    using assms(1) by (rule steady_Tick_prologue)
  have s: "gGameSpeed (world ?g1) = 1" "inputState (world ?g1) = InputState_interactive"
    using assms(3,4) i by (simp_all add: inputs_eq_iff)
  from assms(5) have "unat (Tick_numUpdates d g) \<noteq> 0"
    by (simp add: unat_eq_zero)
  then obtain m where m: "unat (Tick_numUpdates d g) = Suc m"
    by (cases "unat (Tick_numUpdates d g)") simp_all
  have "update_loop d (Suc m) ?g1 = UpdateLogic d ?g1"
    using assms(1) s by (rule update_loop_breaks)
  with Tick_not_paused[OF assms(1,2)] m show ?thesis by simp
qed

lemma client_not_paused:
  "network_mode (world g) = NETWORK_MODE_CLIENT \<Longrightarrow> Tick_isPaused g = gGamePaused (world g)"
  by (simp add: Tick_isPaused_def GameIsPaused_def)

subsection \<open>The concrete collaborators and states\<close>

lemma steady_deps0: "steady deps0"
  by (simp add: steady_def deps0_def inputs_def)

lemma client_at_simps:
  "gCurrentTicks (client_at l s) = l"
  "trace (client_at l s) = []"
  "network_mode (world (client_at l s)) = NETWORK_MODE_CLIENT"
  "network_status (world (client_at l s)) = NETWORK_STATUS_CONNECTED"
  "network_authstatus (world (client_at l s)) = NetworkAuth_Ok"
  "network_server_tick (world (client_at l s)) = s"
  "gGamePaused (world (client_at l s)) = False"
  "gGameSpeed (world (client_at l s)) = 1"
  "inputState (world (client_at l s)) = InputState_Normal"
  "INPUT_FLAG_VIEWPORT_SCROLLING (world (client_at l s)) = False"
  by (simp_all add: client_at_def game0_def world0_def)

subsection \<open>Catching up with the server\<close>



lemma busy_client_at_simps:
  "gCurrentTicks (busy_client_at l s) = l"
  "trace (busy_client_at l s) = []"
  "network_mode (world (busy_client_at l s)) = NETWORK_MODE_CLIENT"
  "network_status (world (busy_client_at l s)) = NETWORK_STATUS_CONNECTED"
  "network_authstatus (world (busy_client_at l s)) = NetworkAuth_Ok"
  "network_server_tick (world (busy_client_at l s)) = s"
  "gGamePaused (world (busy_client_at l s)) = False"
  "gGameSpeed (world (busy_client_at l s)) = 1"
  "inputState (world (busy_client_at l s)) = InputState_interactive"
  by (simp_all add: busy_client_at_def client_at_def game0_def world0_def)

lemma ticks_Tick_breaks:
  assumes "steady d" and "\<not> Tick_isPaused g" and "gGameSpeed (world g) = 1"
    and "inputState (world g) = InputState_interactive" and "Tick_numUpdates d g \<noteq> 0"
  shows "updates_run (trace (Tick d g)) = updates_run (trace g) + 1"
    and "gCurrentTicks (Tick d g)
           = (if network_mode (world g) = NETWORK_MODE_CLIENT
                 \<and> network_server_tick (world g) = gCurrentTicks g
              then gCurrentTicks g else gCurrentTicks g + 1)"
proof -
  let ?g1 = "Tick_prologue d g"
  have t: "Tick d g = Tick_epilogue d False (UpdateLogic d ?g1)"
    using assms by (rule Tick_breaks)
  show "updates_run (trace (Tick d g)) = updates_run (trace g) + 1"
    by (simp add: t updates_run_UpdateLogic)
  have i: "inputs (world ?g1) = inputs (world g)"
    using assms(1) by (rule steady_Tick_prologue)
  have "UpdateLogic_returns_early d ?g1 \<longleftrightarrow>
          network_mode (world g) = NETWORK_MODE_CLIENT
          \<and> network_server_tick (world g) = gCurrentTicks g"
    using i by (simp add: steady_returns_early[OF assms(1)] inputs_eq_iff)
  then show "gCurrentTicks (Tick d g)
           = (if network_mode (world g) = NETWORK_MODE_CLIENT
                 \<and> network_server_tick (world g) = gCurrentTicks g
              then gCurrentTicks g else gCurrentTicks g + 1)"
    by (simp add: t ticks_UpdateLogic)
qed


subsection \<open>Requested and executed updates\<close>

lemma Tick_requested_not_paused:
  assumes "steady d" and "\<not> Tick_isPaused g"
  shows "Tick_requested d g = unat (Tick_numUpdates d g)"
proof -
  let ?g1 = "Tick_prologue d g"
  have i: "inputs (world ?g1) = inputs (world g)"
    using assms(1) by (rule steady_Tick_prologue)
  have p: "\<not> Tick_isPaused ?g1"
    using assms(2) Tick_isPaused_cong[OF i] by simp
  have n: "Tick_numUpdates d ?g1 = Tick_numUpdates d g"
    by (rule Tick_numUpdates_cong[OF i]) simp
  show ?thesis
    by (simp add: Tick_requested_def Let_def Tick_pause_def p n)
qed





lemma updates_run_Tick_single_step:
  assumes "steady d" and "gGamePaused (world g)" and "gDoSingleUpdate (world g)"
    and "network_mode (world g) = NETWORK_MODE_NONE"
  shows "updates_run (trace (Tick d g)) = updates_run (trace g) + 1"
  by (simp add: Tick_single_step[OF assms] updates_run_update_loop_one)


subsection \<open>The early exit\<close>

lemma update_loop_break_Some:
  "update_loop_break d n g = Some b \<Longrightarrow>
     gGameSpeed (world b) = 1
     \<and> (INPUT_FLAG_VIEWPORT_SCROLLING (world b)
        \<or> (inputState (world b) \<noteq> InputState_Reset
           \<and> inputState (world b) \<noteq> InputState_Normal))"
proof (induction n arbitrary: g)
  case 0
  then show ?case by simp
next
  case (Suc n)
  then show ?case
    by (auto simp add: Let_def split: if_splits)
qed

lemma update_loop_break_None:
  "update_loop_break d n g = None \<Longrightarrow>
     update_loop d n g = UpdateLogic_times d n g"
proof (induction n arbitrary: g)
  case 0
  then show ?case by simp
next
  case (Suc n)
  then show ?case
    by (auto simp add: Let_def update_loop.simps(2) split: if_splits)
qed

lemma update_loop_break_ends:
  "update_loop_break d n g = Some b \<Longrightarrow>
     update_loop d n g = b \<or> update_loop d n g = InputSetFlag d False b"
proof (induction n arbitrary: g)
  case 0
  then show ?case by simp
next
  case (Suc n)
  then show ?case
    by (auto simp add: Let_def update_loop.simps(2) split: if_splits)
qed

lemma update_loop_break_runs:
  assumes "steady d" and "no_break (world g)"
  shows "update_loop_break d n g = None"
  using assms(2)
proof (induction n arbitrary: g)
  case 0
  then show ?case by simp
next
  case (Suc n)
  have i: "inputs (world (UpdateLogic d g)) = inputs (world g)"
    using assms(1) by (rule steady_UpdateLogic)
  have nb: "no_break (world (UpdateLogic d g))"
    using Suc.prems no_break_cong[OF i] by simp
  from Suc.IH[OF nb] nb show ?case
    by (auto simp add: Let_def no_break_def)
qed

lemma updates_run_Tick_pause:
  "Tick_pause d p n g = (r, m, g2) \<Longrightarrow> updates_run (trace g2) = updates_run (trace g)"
  by (auto simp add: Tick_pause_def Let_def split: if_splits)

lemma Tick_no_break:
  assumes "Tick_break d g = None"
  shows "updates_run (trace (Tick d g)) = updates_run (trace g) + Tick_requested d g"
proof -
  let ?g1 = "Tick_prologue d g"
  obtain r n g2 where p: "Tick_pause d (Tick_isPaused ?g1) (Tick_numUpdates d ?g1) ?g1 = (r, n, g2)"
    by (cases "Tick_pause d (Tick_isPaused ?g1) (Tick_numUpdates d ?g1) ?g1") auto
  have t: "Tick d g = Tick_epilogue d r (update_loop d (unat n) g2)"
    by (simp add: Tick_def Let_def p)
  have q: "Tick_requested d g = unat n"
    by (simp add: Tick_requested_def Let_def p)
  have "update_loop_break d (unat n) g2 = None"
    using assms by (simp add: Tick_break_def Let_def p)
  then have "update_loop d (unat n) g2 = UpdateLogic_times d (unat n) g2"
    by (rule update_loop_break_None)
  moreover have "updates_run (trace g2) = updates_run (trace g)"
    using updates_run_Tick_pause[OF p] by simp
  ultimately show ?thesis
    by (simp add: t q updates_run_UpdateLogic_times)
qed

lemma Tick_break_Some:
  assumes "Tick_break d g = Some b"
  shows "gGameSpeed (world b) = 1
     \<and> (INPUT_FLAG_VIEWPORT_SCROLLING (world b)
        \<or> (inputState (world b) \<noteq> InputState_Reset
           \<and> inputState (world b) \<noteq> InputState_Normal))"
proof -
  let ?g1 = "Tick_prologue d g"
  obtain r n g2 where p: "Tick_pause d (Tick_isPaused ?g1) (Tick_numUpdates d ?g1) ?g1 = (r, n, g2)"
    by (cases "Tick_pause d (Tick_isPaused ?g1) (Tick_numUpdates d ?g1) ?g1") auto
  have "update_loop_break d (unat n) g2 = Some b"
    using assms by (simp add: Tick_break_def Let_def p)
  then show ?thesis by (rule update_loop_break_Some)
qed


lemma Tick_break_ends:
  assumes "Tick_break d g = Some b"
  shows "updates_run (trace (Tick d g)) = updates_run (trace b)
         \<and> gCurrentTicks (Tick d g) = gCurrentTicks b"
proof -
  let ?g1 = "Tick_prologue d g"
  obtain r n g2 where p: "Tick_pause d (Tick_isPaused ?g1) (Tick_numUpdates d ?g1) ?g1 = (r, n, g2)"
    by (cases "Tick_pause d (Tick_isPaused ?g1) (Tick_numUpdates d ?g1) ?g1") auto
  have t: "Tick d g = Tick_epilogue d r (update_loop d (unat n) g2)"
    by (simp add: Tick_def Let_def p)
  have "update_loop_break d (unat n) g2 = Some b"
    using assms by (simp add: Tick_break_def Let_def p)
  then have "update_loop d (unat n) g2 = b \<or> update_loop d (unat n) g2 = InputSetFlag d False b"
    by (rule update_loop_break_ends)
  then show ?thesis
    by (auto simp add: t)
qed

lemma Tick_break_not_paused:
  assumes "steady d" and "\<not> Tick_isPaused g"
  shows "Tick_break d g = update_loop_break d (unat (Tick_numUpdates d g)) (Tick_prologue d g)"
proof -
  let ?g1 = "Tick_prologue d g"
  have i: "inputs (world ?g1) = inputs (world g)"
    using assms(1) by (rule steady_Tick_prologue)
  have p: "\<not> Tick_isPaused ?g1"
    using assms(2) Tick_isPaused_cong[OF i] by simp
  have n: "Tick_numUpdates d ?g1 = Tick_numUpdates d g"
    by (rule Tick_numUpdates_cong[OF i]) simp
  show ?thesis
    by (simp add: Tick_break_def Let_def Tick_pause_def p n)
qed

text \<open>
  C2 (as amended). The loop of a frame takes its early exit only in a state, right
  after an update, in which the game speed is 1 and either the input state is not idle
  or the scrolling flag is set; the frame then runs no further update. A frame whose
  loop does not take the exit runs every update it was entered for. In the loop
  itself, an iteration after which the loop does not go on has left the speed at 1.
  The network role plays no part: whatever it is, an update after which the speed is 1
  and the input state is not idle is the last of its batch.
\<close>

theorem Tick_early_exit_only_at_speed_1:
  "(Tick_break d g = Some b \<longrightarrow>
      gGameSpeed (world b) = 1
      \<and> (INPUT_FLAG_VIEWPORT_SCROLLING (world b)
         \<or> (inputState (world b) \<noteq> InputState_Reset
            \<and> inputState (world b) \<noteq> InputState_Normal))
      \<and> updates_run (trace (Tick d g)) = updates_run (trace b)
      \<and> gCurrentTicks (Tick d g) = gCurrentTicks b)
   \<and> (Tick_break d g = None \<longrightarrow>
        updates_run (trace (Tick d g)) = updates_run (trace g) + Tick_requested d g)
   \<and> (update_loop d (Suc n) h \<noteq> update_loop d n (UpdateLogic d h) \<longrightarrow>
        gGameSpeed (world (UpdateLogic d h)) = 1
        \<and> (INPUT_FLAG_VIEWPORT_SCROLLING (world (UpdateLogic d h))
           \<or> (inputState (world (UpdateLogic d h)) \<noteq> InputState_Reset
              \<and> inputState (world (UpdateLogic d h)) \<noteq> InputState_Normal)))
   \<and> (gGameSpeed (world (UpdateLogic d h)) = 1
       \<and> inputState (world (UpdateLogic d h)) \<noteq> InputState_Reset
       \<and> inputState (world (UpdateLogic d h)) \<noteq> InputState_Normal \<longrightarrow>
        update_loop_break d (Suc n) h = Some (UpdateLogic d h)
        \<and> update_loop d (Suc n) h = UpdateLogic d h)"
proof -
  have taken: "Tick_break d g = Some b \<longrightarrow>
      gGameSpeed (world b) = 1
      \<and> (INPUT_FLAG_VIEWPORT_SCROLLING (world b)
         \<or> (inputState (world b) \<noteq> InputState_Reset
            \<and> inputState (world b) \<noteq> InputState_Normal))
      \<and> updates_run (trace (Tick d g)) = updates_run (trace b)
      \<and> gCurrentTicks (Tick d g) = gCurrentTicks b"
    using Tick_break_Some[of d g b] Tick_break_ends[of d g b] by blast
  have not_taken: "Tick_break d g = None \<longrightarrow>
        updates_run (trace (Tick d g)) = updates_run (trace g) + Tick_requested d g"
    using Tick_no_break[of d g] by blast
  have stops: "update_loop d (Suc n) h \<noteq> update_loop d n (UpdateLogic d h) \<longrightarrow>
        gGameSpeed (world (UpdateLogic d h)) = 1
        \<and> (INPUT_FLAG_VIEWPORT_SCROLLING (world (UpdateLogic d h))
           \<or> (inputState (world (UpdateLogic d h)) \<noteq> InputState_Reset
              \<and> inputState (world (UpdateLogic d h)) \<noteq> InputState_Normal))"
    by (simp add: update_loop.simps(2) Let_def)
  have any_role: "gGameSpeed (world (UpdateLogic d h)) = 1
       \<and> inputState (world (UpdateLogic d h)) \<noteq> InputState_Reset
       \<and> inputState (world (UpdateLogic d h)) \<noteq> InputState_Normal \<longrightarrow>
        update_loop_break d (Suc n) h = Some (UpdateLogic d h)
        \<and> update_loop d (Suc n) h = UpdateLogic d h"
    by (simp add: update_loop.simps(2) Let_def)
  show ?thesis
    by (rule conjI[OF taken conjI[OF not_taken conjI[OF stops any_role]]])
qed

text \<open>
  A client three ticks behind its server, at speed 1 with a widget held, takes the exit
  right after its first update: the loop entered for three iterations ends there. A
  client seven ticks behind with nothing pressed does not take it and runs all it
  asked for.
\<close>

theorem Tick_early_exit_only_at_speed_1_witness:
  "Tick_break deps0 (busy_client_at 50 53)
     = Some (UpdateLogic deps0 (Tick_prologue deps0 (busy_client_at 50 53)))
   \<and> gGameSpeed (world (UpdateLogic deps0 (Tick_prologue deps0 (busy_client_at 50 53)))) = 1
   \<and> inputState (world (UpdateLogic deps0 (Tick_prologue deps0 (busy_client_at 50 53))))
       = InputState_interactive
   \<and> updates_run (trace (Tick deps0 (busy_client_at 50 53)))
       = updates_run (trace (UpdateLogic deps0 (Tick_prologue deps0 (busy_client_at 50 53))))
   \<and> update_loop deps0 (Suc 2) (Tick_prologue deps0 (busy_client_at 50 53))
       = UpdateLogic deps0 (Tick_prologue deps0 (busy_client_at 50 53))
   \<and> update_loop deps0 (Suc 2) (Tick_prologue deps0 (busy_client_at 50 53))
       \<noteq> update_loop deps0 2 (UpdateLogic deps0 (Tick_prologue deps0 (busy_client_at 50 53)))
   \<and> Tick_break deps0 (client_at 50 57) = None
   \<and> updates_run (trace (Tick deps0 (client_at 50 57)))
       = updates_run (trace (client_at 50 57)) + Tick_requested deps0 (client_at 50 57)"
proof -
  let ?g = "busy_client_at 50 53"
  let ?p = "Tick_prologue deps0 ?g"
  let ?b = "UpdateLogic deps0 ?p"
  let ?c = "client_at 50 57"
  note at_g = Tick_early_exit_only_at_speed_1[of deps0 ?g ?b 2 ?p]
  note at_c = Tick_early_exit_only_at_speed_1[of deps0 ?c ?b 2 ?p]
  have "inputs (world ?b) = inputs (world ?p)"
    using steady_deps0 by (rule steady_UpdateLogic)
  moreover have "inputs (world ?p) = inputs (world ?g)"
    using steady_deps0 by (rule steady_Tick_prologue)
  ultimately have b1: "gGameSpeed (world ?b) = 1"
    and b2: "inputState (world ?b) = InputState_interactive"
    by (simp_all add: inputs_eq_iff busy_client_at_simps)
  from at_g[THEN conjunct2, THEN conjunct2, THEN conjunct2] b1 b2
  have l: "update_loop_break deps0 (Suc 2) ?p = Some ?b"
    and e: "update_loop deps0 (Suc 2) ?p = ?b"
    by simp_all
  have k: "Tick_break deps0 ?g = Some ?b"
  proof -
    have np: "\<not> Tick_isPaused ?g"
      by (simp add: client_not_paused busy_client_at_simps)
    have "unat (Tick_numUpdates deps0 ?g) = Suc 2"
      by (simp add: Tick_numUpdates_client busy_client_at_simps)
    then have "Tick_break deps0 ?g = update_loop_break deps0 (Suc 2) ?p"
      using Tick_break_not_paused[OF steady_deps0 np] by simp
    with l show ?thesis by simp
  qed
  from at_g[THEN conjunct1] k
  have u: "updates_run (trace (Tick deps0 ?g)) = updates_run (trace ?b)"
    by blast
  have "update_loop deps0 (Suc 1) ?b = UpdateLogic deps0 ?b"
    using steady_deps0 b1 b2 by (rule update_loop_breaks)
  then have "updates_run (trace (update_loop deps0 2 ?b)) = updates_run (trace ?b) + 1"
    by (simp add: updates_run_UpdateLogic numeral_2_eq_2)
  then have "?b \<noteq> update_loop deps0 2 ?b"
    by auto
  then have n: "update_loop deps0 (Suc 2) ?p \<noteq> update_loop deps0 2 ?b"
    unfolding e .
  have "Tick_break deps0 ?c
          = update_loop_break deps0 (unat (Tick_numUpdates deps0 ?c)) (Tick_prologue deps0 ?c)"
    by (rule Tick_break_not_paused[OF steady_deps0])
       (simp add: client_not_paused client_at_simps)
  moreover have "no_break (world (Tick_prologue deps0 ?c))"
    using no_break_cong[OF steady_Tick_prologue[OF steady_deps0, of ?c]]
    by (simp add: no_break_def client_at_simps)
  ultimately have r: "Tick_break deps0 ?c = None"
    by (simp add: update_loop_break_runs[OF steady_deps0])
  from at_c[THEN conjunct2, THEN conjunct1] r
  have a: "updates_run (trace (Tick deps0 ?c))
             = updates_run (trace ?c) + Tick_requested deps0 ?c"
    by blast
  show ?thesis
    by (rule conjI[OF k conjI[OF b1 conjI[OF b2 conjI[OF u conjI[OF e conjI[OF n conjI[OF r a]]]]]]])
qed

text \<open>
  A connected, authenticated client three ticks behind its server, at speed 1 with a
  widget held: the loop is entered for three updates and left after the first.
\<close>

theorem Tick_early_exit_counterexample:
  "network_mode (world (busy_client_at 50 53)) = NETWORK_MODE_CLIENT
   \<and> network_status (world (busy_client_at 50 53)) = NETWORK_STATUS_CONNECTED
   \<and> network_authstatus (world (busy_client_at 50 53)) = NetworkAuth_Ok
   \<and> unat (Tick_numUpdates deps0 (busy_client_at 50 53)) = 3
   \<and> Tick_requested deps0 (busy_client_at 50 53) = 3
   \<and> updates_run (trace (busy_client_at 50 53)) = 0
   \<and> updates_run (trace (Tick deps0 (busy_client_at 50 53))) = 1"
proof -
  let ?g = "busy_client_at 50 53"
  have np: "\<not> Tick_isPaused ?g"
    by (simp add: client_not_paused busy_client_at_simps)
  have u: "unat (Tick_numUpdates deps0 ?g) = 3"
    by (simp add: Tick_numUpdates_client busy_client_at_simps)
  then have n: "Tick_numUpdates deps0 ?g \<noteq> 0" by auto
  have r: "Tick_requested deps0 ?g = 3"
    using Tick_requested_not_paused[OF steady_deps0 np] u by simp
  have e: "updates_run (trace (Tick deps0 ?g)) = updates_run (trace ?g) + 1"
    by (rule ticks_Tick_breaks(1)[OF steady_deps0 np _ _ n])
       (simp_all add: busy_client_at_simps)
  from u r e show ?thesis by (simp add: busy_client_at_simps)
qed

subsection \<open>The speed multiplier\<close>





text \<open>Whatever an out-of-range shift yields, no frame starts \<open>2 ^ 32\<close> ticks or more.\<close>

lemma updates_run_Tick_bounded:
  assumes "steady d"
  shows "updates_run (trace (Tick d g)) < updates_run (trace g) + 2 ^ 32"
proof -
  let ?g1 = "Tick_prologue d g"
  obtain r n g2 where p: "Tick_pause d (Tick_isPaused ?g1) (Tick_numUpdates d ?g1) ?g1 = (r, n, g2)"
    by (cases "Tick_pause d (Tick_isPaused ?g1) (Tick_numUpdates d ?g1) ?g1") auto
  have t: "Tick d g = Tick_epilogue d r (update_loop d (unat n) g2)"
    by (simp add: Tick_def Let_def p)
  have "updates_run (trace g2) = updates_run (trace g)"
    using p by (auto simp add: Tick_pause_def Let_def split: if_splits)
  moreover have "updates_run (trace (update_loop d (unat n) g2)) \<le> updates_run (trace g2) + unat n"
    using updates_run_update_loop_le by blast
  moreover have "unat n < 2 ^ 32"
    using unsigned_less[of n] by simp
  ultimately show ?thesis by (simp add: t)
qed

subsection \<open>Fields that steady collaborators keep\<close>

lemma steady_invoke_fields:
  assumes "steady d"
  shows "gGamePaused (world (invoke d c g)) = gGamePaused (world g)"
    and "gScreenFlags (world (invoke d c g)) = gScreenFlags (world g)"
    and "gOpenRCT2Headless (world (invoke d c g)) = gOpenRCT2Headless (world g)"
    and "network_mode (world (invoke d c g)) = network_mode (world g)"
  using steady_invoke[OF assms, of c g] by (simp_all add: inputs_eq_iff)

lemma map_flashing_fields [simp]:
  "gGamePaused (map_flashing w) = gGamePaused w"
  "gScreenFlags (map_flashing w) = gScreenFlags w"
  by (simp_all add: map_flashing_def Let_def)

lemma paused_Tick_epilogue:
  assumes "steady d"
  shows "gGamePaused (world (Tick_epilogue d r g))
           = (gGamePaused (world g)
              \<or> (r \<and> gScreenFlags (world g) AND SCREEN_FLAGS_TITLE_DEMO d = 0))"
  by (auto simp add: Tick_epilogue_def Let_def InputSetFlag_def PauseToggle_def
      GameIsNotPaused_def steady_invoke_fields[OF assms])

lemma paused_after_loop:
  assumes "steady d"
  shows "gGamePaused (world (update_loop d n g)) = gGamePaused (world g)"
    and "gScreenFlags (world (update_loop d n g)) = gScreenFlags (world g)"
proof -
  obtain b where "inputs (world (update_loop d n g))
              = inputs ((world g)\<lparr>INPUT_FLAG_VIEWPORT_SCROLLING := b\<rparr>)"
    using steady_update_loop[OF assms] by blast
  then show "gGamePaused (world (update_loop d n g)) = gGamePaused (world g)"
    and "gScreenFlags (world (update_loop d n g)) = gScreenFlags (world g)"
    by (simp_all add: inputs_eq_iff)
qed

lemma paused_Tick_single_step:
  assumes "steady d" and "gGamePaused (world g)" and "gDoSingleUpdate (world g)"
    and "network_mode (world g) = NETWORK_MODE_NONE"
  shows "gGamePaused (world (Tick d g))
           = (gScreenFlags (world g) AND SCREEN_FLAGS_TITLE_DEMO d = 0)"
proof -
  let ?g1 = "Tick_prologue d g"
  have i: "inputs (world ?g1) = inputs (world g)"
    using assms(1) by (rule steady_Tick_prologue)
  have "inputs (world (PauseToggle d ?g1))
          = inputs ((world ?g1)\<lparr>gGamePaused := \<not> gGamePaused (world ?g1)\<rparr>)"
    using assms(1) by (rule steady_PauseToggle)
  then have t: "\<not> gGamePaused (world (PauseToggle d ?g1))"
    "gScreenFlags (world (PauseToggle d ?g1)) = gScreenFlags (world g)"
    using i assms(2) by (simp_all add: inputs_eq_iff)
  show ?thesis
    by (simp add: Tick_single_step[OF assms] paused_Tick_epilogue[OF assms(1)]
        paused_after_loop[OF assms(1)] t)
qed

subsection \<open>The single step\<close>

lemma single_step_with_flags_simps:
  "trace (single_step_with_flags f) = []"
  "network_mode (world (single_step_with_flags f)) = NETWORK_MODE_NONE"
  "gGamePaused (world (single_step_with_flags f)) = True"
  "gDoSingleUpdate (world (single_step_with_flags f)) = True"
  "gScreenFlags (world (single_step_with_flags f)) = f"
  by (simp_all add: single_step_with_flags_def game0_def world0_def)

lemma Tick_single_step_at:
  assumes "gGamePaused (world (Tick_prologue d g))"
    and "gDoSingleUpdate (world (Tick_prologue d g))"
    and "network_mode (world (Tick_prologue d g)) = NETWORK_MODE_NONE"
  shows "Tick d g =
           Tick_epilogue d True (update_loop d (Suc 0) (PauseToggle d (Tick_prologue d g)))"
  using assms by (simp add: Tick_def Let_def Tick_pause_def Tick_isPaused_def GameIsPaused_def)

lemma paused_Tick_single_step_at:
  assumes "steady d"
    and "gGamePaused (world (Tick_prologue d g))"
    and "gDoSingleUpdate (world (Tick_prologue d g))"
    and "network_mode (world (Tick_prologue d g)) = NETWORK_MODE_NONE"
  shows "gGamePaused (world (Tick d g))
           = (gScreenFlags (world g) AND SCREEN_FLAGS_TITLE_DEMO d = 0)"
proof -
  have i: "inputs (world (Tick_prologue d g)) = inputs (world g)"
    using assms(1) by (rule steady_Tick_prologue)
  have "gGamePaused (world g)" "gDoSingleUpdate (world g)"
    "network_mode (world g) = NETWORK_MODE_NONE"
    using assms(2,3,4) i by (simp_all add: inputs_eq_iff)
  with assms(1) show ?thesis by (rule paused_Tick_single_step)
qed

text \<open>
  C4 (as amended). A frame that finds the game paused with a single step requested and
  no network session (as it reads them at lines 143--156) executes exactly one logical
  tick and clears the request. With collaborators that leave the driver's readings
  alone, it ends paused again exactly when the screen is not the title demo.
\<close>

theorem Tick_single_step_then_paused:
  assumes "gGamePaused (world (Tick_prologue d g))"
    and "gDoSingleUpdate (world (Tick_prologue d g))"
    and "network_mode (world (Tick_prologue d g)) = NETWORK_MODE_NONE"
  shows "updates_run (trace (Tick d g)) = updates_run (trace g) + 1
         \<and> \<not> gDoSingleUpdate (world (Tick d g))
         \<and> (steady d \<longrightarrow>
              gGamePaused (world (Tick d g))
                = (gScreenFlags (world g) AND SCREEN_FLAGS_TITLE_DEMO d = 0))"
proof -
  note t = Tick_single_step_at[OF assms]
  have "updates_run (trace (Tick d g)) = updates_run (trace g) + 1"
    by (simp add: t updates_run_update_loop_one)
  moreover have "\<not> gDoSingleUpdate (world (Tick d g))"
    by (simp add: t)
  moreover have "steady d \<longrightarrow>
              gGamePaused (world (Tick d g))
                = (gScreenFlags (world g) AND SCREEN_FLAGS_TITLE_DEMO d = 0)"
    using paused_Tick_single_step_at[OF _ assms] by blast
  ultimately show ?thesis by simp
qed

text \<open>
  Outside the title demo the single step runs its tick, clears the request and ends
  paused; in the title demo it runs its tick and clears the request as well.
\<close>

theorem Tick_single_step_then_paused_witness:
  "gGamePaused (world (Tick_prologue deps0 (single_step_with_flags 0)))
   \<and> updates_run (trace (Tick deps0 (single_step_with_flags 0))) = 1
   \<and> \<not> gDoSingleUpdate (world (Tick deps0 (single_step_with_flags 0)))
   \<and> gGamePaused (world (Tick deps0 (single_step_with_flags 0)))
   \<and> updates_run (trace (Tick deps0 (single_step_with_flags 1))) = 1
   \<and> \<not> gDoSingleUpdate (world (Tick deps0 (single_step_with_flags 1)))"
proof -
  have p: "gGamePaused (world (Tick_prologue deps0 (single_step_with_flags f)))"
    "gDoSingleUpdate (world (Tick_prologue deps0 (single_step_with_flags f)))"
    "network_mode (world (Tick_prologue deps0 (single_step_with_flags f))) = NETWORK_MODE_NONE"
    for f
    using steady_Tick_prologue[OF steady_deps0, of "single_step_with_flags f"]
    by (simp_all add: inputs_eq_iff single_step_with_flags_simps)
  from Tick_single_step_then_paused[OF p, of 0] Tick_single_step_then_paused[OF p, of 1] p(1)[of 0]
  show ?thesis
    by (simp add: steady_deps0 single_step_with_flags_simps)
qed

text \<open>
  In the title demo (screen flag \<^verbatim>\<open>SCREEN_FLAGS_TITLE_DEMO\<close> set) the single step runs
  its tick and leaves the game running: line 245 does not toggle the pause back.
\<close>

theorem Tick_single_step_counterexample:
  "gGamePaused (world (single_step_with_flags 1))
   \<and> gDoSingleUpdate (world (single_step_with_flags 1))
   \<and> network_mode (world (single_step_with_flags 1)) = NETWORK_MODE_NONE
   \<and> gScreenFlags (world (single_step_with_flags 1)) AND SCREEN_FLAGS_TITLE_DEMO deps0 = 1
   \<and> updates_run (trace (Tick deps0 (single_step_with_flags 1))) = 1
   \<and> \<not> gGamePaused (world (Tick deps0 (single_step_with_flags 1)))"
proof -
  let ?g = "single_step_with_flags 1"
  have "gGamePaused (world (Tick deps0 ?g))
           = (gScreenFlags (world ?g) AND SCREEN_FLAGS_TITLE_DEMO deps0 = 0)"
    by (rule paused_Tick_single_step[OF steady_deps0])
       (simp_all add: single_step_with_flags_simps)
  moreover have "updates_run (trace (Tick deps0 ?g)) = updates_run (trace ?g) + 1"
    by (rule updates_run_Tick_single_step[OF steady_deps0])
       (simp_all add: single_step_with_flags_simps)
  ultimately show ?thesis
    by (simp add: single_step_with_flags_simps deps0_def)
qed

subsection \<open>Paused frames\<close>

lemma simulation_step_not_driver: "simulation_step c \<Longrightarrow> \<not> driver_part c"
  by (cases c) (simp_all add: simulation_step_def driver_part_def)

lemma Tick_paused_at:
  assumes "Tick_isPaused (Tick_prologue d g)"
    and "\<not> (gDoSingleUpdate (world (Tick_prologue d g))
            \<and> network_mode (world (Tick_prologue d g)) = NETWORK_MODE_NONE)"
  shows "Tick d g =
           Tick_epilogue d False
             (invokes d [MapAnimationInvalidateAll, network_process_pending,
                         GameActions_ProcessQueue]
                (if network_mode (world (Tick_prologue d g)) = NETWORK_MODE_SERVER
                 then invoke d network_send_tick (Tick_prologue d g)
                 else Tick_prologue d g))"
  using assms by (auto simp add: Tick_def Let_def Tick_pause_def)

lemma count_Tick_paused_at:
  assumes "Tick_isPaused (Tick_prologue d g)"
    and "\<not> (gDoSingleUpdate (world (Tick_prologue d g))
            \<and> network_mode (world (Tick_prologue d g)) = NETWORK_MODE_NONE)"
    and "\<And>c. P c \<Longrightarrow> \<not> driver_part c"
  shows "count_calls P (trace (Tick d g)) =
           count_calls P (trace g)
           + length (filter P [MapAnimationInvalidateAll, network_process_pending,
                               GameActions_ProcessQueue])"
proof -
  have s: "\<not> P network_send_tick"
    using assms(3)[of network_send_tick] by (auto simp add: driver_part_def)
  show ?thesis
    unfolding Tick_paused_at[OF assms(1,2)]
    by (simp add: count_Tick_epilogue[OF assms(3)] count_Tick_prologue[OF assms(3)]
        count_calls_stamped s)
qed

lemma lonely_server_simps:
  "gCurrentTicks lonely_server = 100"
  "trace lonely_server = []"
  "network_mode (world lonely_server) = NETWORK_MODE_SERVER"
  "gGamePaused (world lonely_server) = False"
  "gDoSingleUpdate (world lonely_server) = False"
  "Tick_isPaused lonely_server"
  by (simp_all add: lonely_server_def game0_def world0_def Tick_isPaused_def GameIsPaused_def)

lemma simulation_state_fields [simp]:
  "simulation_state (w\<lparr>INPUT_FLAG_VIEWPORT_SCROLLING := b\<rparr>) = simulation_state w"
  "simulation_state (w\<lparr>gGamePaused := p\<rparr>) = simulation_state w"
  "simulation_state (w\<lparr>gDoSingleUpdate := s\<rparr>) = simulation_state w"
  "simulation_state (map_flashing w) = simulation_state w"
  by (simp_all add: simulation_state_def map_flashing_def Let_def)

lemma keeps_simulation_invoke:
  "keeps_simulation d driver_part \<Longrightarrow> driver_part c \<Longrightarrow>
   simulation_state (world (invoke d c g)) = simulation_state (world g)"
  by (simp add: keeps_simulation_def world_invoke)

lemma driver_part_simps [simp]:
  "driver_part (PROFILED_FUNCTION fn_Tick)" "driver_part ScreenshotCheck"
  "driver_part GameHandleKeyboardInput" "driver_part TitleSequencePlayer_Update"
  "driver_part network_update" "driver_part network_send_tick" "driver_part network_flush"
  "driver_part PauseToggle_call" "driver_part ContextUpdateMapTooltip"
  "driver_part ContextHandleInput" "driver_part ScenarioAutosaveCheck"
  "driver_part WindowDispatchUpdateAll" "driver_part (InputSetFlag_VIEWPORT_SCROLLING b)"
  by (simp_all add: driver_part_def)

lemma keeps_simulation_Tick_prologue:
  "keeps_simulation d driver_part \<Longrightarrow>
   simulation_state (world (Tick_prologue d g)) = simulation_state (world g)"
  by (simp add: Tick_prologue_def Let_def keeps_simulation_invoke)

lemma keeps_simulation_Tick_epilogue:
  "keeps_simulation d driver_part \<Longrightarrow>
   simulation_state (world (Tick_epilogue d r g)) = simulation_state (world g)"
  by (simp add: Tick_epilogue_def Let_def keeps_simulation_invoke InputSetFlag_def
      PauseToggle_def)

lemma keeps_simulation_housekeeping:
  assumes "keeps_simulation d housekeeping"
  shows "keeps_simulation d driver_part"
    and "simulation_state (world (invokes d [MapAnimationInvalidateAll, network_process_pending,
                         GameActions_ProcessQueue] g)) = simulation_state (world g)"
  using assms
  by (simp_all add: keeps_simulation_def housekeeping_def invokes_def world_invoke)

lemma ages_invoke [simp]:
  "gSavedAge (invoke d c g) = gSavedAge g" "gScreenAge (invoke d c g) = gScreenAge g"
  by (simp_all add: invoke_def)

lemma ages_invokes [simp]:
  "gSavedAge (invokes d cs g) = gSavedAge g" "gScreenAge (invokes d cs g) = gScreenAge g"
  unfolding invokes_def by (induction cs arbitrary: g) simp_all

lemma ages_Tick_prologue [simp]:
  "gSavedAge (Tick_prologue d g) = gSavedAge g" "gScreenAge (Tick_prologue d g) = gScreenAge g"
  by (simp_all add: Tick_prologue_def Let_def)

lemma ages_Tick_epilogue [simp]:
  "gSavedAge (Tick_epilogue d r g) = gSavedAge g" "gScreenAge (Tick_epilogue d r g) = gScreenAge g"
  by (simp_all add: Tick_epilogue_def Let_def InputSetFlag_def PauseToggle_def)

lemma simulation_state_Tick_paused_at:
  assumes "Tick_isPaused (Tick_prologue d g)"
    and "\<not> (gDoSingleUpdate (world (Tick_prologue d g))
            \<and> network_mode (world (Tick_prologue d g)) = NETWORK_MODE_NONE)"
    and "keeps_simulation d housekeeping"
  shows "simulation_state (world (Tick d g)) = simulation_state (world g)"
  unfolding Tick_paused_at[OF assms(1,2)]
  by (simp add: keeps_simulation_Tick_epilogue keeps_simulation_Tick_prologue
      keeps_simulation_invoke keeps_simulation_housekeeping[OF assms(3)])

lemma ages_Tick_paused_at:
  assumes "Tick_isPaused (Tick_prologue d g)"
    and "\<not> (gDoSingleUpdate (world (Tick_prologue d g))
            \<and> network_mode (world (Tick_prologue d g)) = NETWORK_MODE_NONE)"
  shows "gSavedAge (Tick d g) = gSavedAge g" "gScreenAge (Tick d g) = gScreenAge g"
  unfolding Tick_paused_at[OF assms(1,2)] by simp_all

lemma steady_deps_queued_action: "steady deps_queued_action"
  by (simp add: steady_def deps_queued_action_def inputs_def)

lemma keeps_simulation_deps_queued_action: "keeps_simulation deps_queued_action driver_part"
  by (simp add: keeps_simulation_def deps_queued_action_def driver_part_def)

lemma keeps_simulation_deps0: "keeps_simulation deps0 housekeeping"
  by (simp add: keeps_simulation_def deps0_def housekeeping_def driver_part_def)

lemma queue_deps_queued_action:
  "scenarioRand_s0 (world (invokes deps_queued_action
      [MapAnimationInvalidateAll, network_process_pending, GameActions_ProcessQueue] g))
     = scenarioRand_s0 (world g) + 1"
  by (simp add: invokes_def world_invoke deps_queued_action_def)

lemma seed_simulation_state:
  "simulation_state w' = simulation_state w \<Longrightarrow> scenarioRand_s0 w' = scenarioRand_s0 w"
  by (simp add: simulation_state_def)

text \<open>
  C5 (as amended). A frame that finds the game paused when it reads the pause state
  (line 143: by the player, or as a headless server with no client) and has no single
  step pending starts no logical tick: the tick counter, the logical date, the saved
  age and the screen age keep their values and no subsystem update is called. It still
  invalidates the map animations, processes the pending network messages and drains
  the action queue, once each. The simulation state is what it was, provided none of
  the calls a frame makes outside \<^verbatim>\<open>UpdateLogic\<close> changes it.
\<close>

theorem Tick_paused_frame:
  assumes "Tick_isPaused (Tick_prologue d g)"
    and "\<not> gDoSingleUpdate (world (Tick_prologue d g))"
  shows "updates_run (trace (Tick d g)) = updates_run (trace g)
         \<and> gCurrentTicks (Tick d g) = gCurrentTicks g
         \<and> date (Tick d g) = date g
         \<and> gSavedAge (Tick d g) = gSavedAge g
         \<and> gScreenAge (Tick d g) = gScreenAge g
         \<and> count_calls simulation_step (trace (Tick d g))
             = count_calls simulation_step (trace g)
         \<and> (keeps_simulation d housekeeping \<longrightarrow>
              simulation_state (world (Tick d g)) = simulation_state (world g))
         \<and> count_call MapAnimationInvalidateAll (trace (Tick d g))
             = count_call MapAnimationInvalidateAll (trace g) + 1
         \<and> count_call network_process_pending (trace (Tick d g))
             = count_call network_process_pending (trace g) + 1
         \<and> count_call GameActions_ProcessQueue (trace (Tick d g))
             = count_call GameActions_ProcessQueue (trace g) + 1"
proof -
  have ns: "\<not> (gDoSingleUpdate (world (Tick_prologue d g))
              \<and> network_mode (world (Tick_prologue d g)) = NETWORK_MODE_NONE)"
    using assms(2) by simp
  note t = Tick_paused_at[OF assms(1) ns]
  have "updates_run (trace (Tick d g)) = updates_run (trace g)"
    by (simp add: t)
  moreover have "gCurrentTicks (Tick d g) = gCurrentTicks g" "date (Tick d g) = date g"
    by (simp_all add: t)
  moreover have "gSavedAge (Tick d g) = gSavedAge g" "gScreenAge (Tick d g) = gScreenAge g"
    by (rule ages_Tick_paused_at[OF assms(1) ns])+
  moreover have "count_calls simulation_step (trace (Tick d g))
             = count_calls simulation_step (trace g)"
    using count_Tick_paused_at[OF assms(1) ns, of simulation_step]
    by (simp add: simulation_step_not_driver simulation_step_def)
  moreover have "keeps_simulation d housekeeping \<longrightarrow>
              simulation_state (world (Tick d g)) = simulation_state (world g)"
    using simulation_state_Tick_paused_at[OF assms(1) ns] by blast
  moreover have "count_call MapAnimationInvalidateAll (trace (Tick d g))
             = count_call MapAnimationInvalidateAll (trace g) + 1"
    unfolding count_call_def
    by (subst count_Tick_paused_at[OF assms(1) ns]) (simp_all add: driver_part_def)
  moreover have "count_call network_process_pending (trace (Tick d g))
             = count_call network_process_pending (trace g) + 1"
    unfolding count_call_def
    by (subst count_Tick_paused_at[OF assms(1) ns]) (simp_all add: driver_part_def)
  moreover have "count_call GameActions_ProcessQueue (trace (Tick d g))
             = count_call GameActions_ProcessQueue (trace g) + 1"
    unfolding count_call_def
    by (subst count_Tick_paused_at[OF assms(1) ns]) (simp_all add: driver_part_def)
  ultimately show ?thesis by simp
qed

text \<open>The headless server without clients, not paused by anyone: a paused frame.\<close>

theorem Tick_paused_frame_witness:
  "\<not> gGamePaused (world lonely_server)
   \<and> updates_run (trace (Tick deps0 lonely_server)) = 0
   \<and> gCurrentTicks (Tick deps0 lonely_server) = 100
   \<and> date (Tick deps0 lonely_server) = date lonely_server
   \<and> gSavedAge (Tick deps0 lonely_server) = gSavedAge lonely_server
   \<and> gScreenAge (Tick deps0 lonely_server) = gScreenAge lonely_server
   \<and> count_calls simulation_step (trace (Tick deps0 lonely_server)) = 0
   \<and> simulation_state (world (Tick deps0 lonely_server)) = simulation_state (world lonely_server)
   \<and> count_call MapAnimationInvalidateAll (trace (Tick deps0 lonely_server)) = 1
   \<and> count_call network_process_pending (trace (Tick deps0 lonely_server)) = 1
   \<and> count_call GameActions_ProcessQueue (trace (Tick deps0 lonely_server)) = 1"
proof -
  have i: "inputs (world (Tick_prologue deps0 lonely_server)) = inputs (world lonely_server)"
    using steady_deps0 by (rule steady_Tick_prologue)
  have p: "Tick_isPaused (Tick_prologue deps0 lonely_server)"
    using Tick_isPaused_cong[OF i] by (simp add: lonely_server_simps)
  have s: "\<not> gDoSingleUpdate (world (Tick_prologue deps0 lonely_server))"
    using i by (simp add: inputs_eq_iff lonely_server_simps)
  from Tick_paused_frame[OF p s] keeps_simulation_deps0 show ?thesis
    by (simp add: lonely_server_simps count_call_def)
qed

text \<open>
  The same server with an action in its queue that draws a random number: the paused
  frame runs no logical tick and leaves the tick counter alone, and the action it
  drains has moved the generator from 7 to 8.
\<close>

theorem Tick_paused_frame_counterexample:
  "Tick_isPaused lonely_server
   \<and> \<not> gDoSingleUpdate (world lonely_server)
   \<and> Tick_isPaused (Tick_prologue deps_queued_action lonely_server)
   \<and> \<not> gDoSingleUpdate (world (Tick_prologue deps_queued_action lonely_server))
   \<and> updates_run (trace (Tick deps_queued_action lonely_server)) = 0
   \<and> gCurrentTicks (Tick deps_queued_action lonely_server) = gCurrentTicks lonely_server
   \<and> scenarioRand_s0 (world lonely_server) = 7
   \<and> scenarioRand_s0 (world (Tick deps_queued_action lonely_server)) = 8
   \<and> simulation_state (world (Tick deps_queued_action lonely_server))
       \<noteq> simulation_state (world lonely_server)"
proof -
  let ?d = deps_queued_action
  let ?p = "Tick_prologue ?d lonely_server"
  have i: "inputs (world ?p) = inputs (world lonely_server)"
    using steady_deps_queued_action by (rule steady_Tick_prologue)
  have p: "Tick_isPaused ?p"
    using Tick_isPaused_cong[OF i] by (simp add: lonely_server_simps)
  have s: "\<not> gDoSingleUpdate (world ?p)"
    using i by (simp add: inputs_eq_iff lonely_server_simps)
  then have ns: "\<not> (gDoSingleUpdate (world ?p) \<and> network_mode (world ?p) = NETWORK_MODE_NONE)"
    by simp
  have m: "network_mode (world ?p) = NETWORK_MODE_SERVER"
    using i by (simp add: inputs_eq_iff lonely_server_simps)
  note t = Tick_paused_at[OF p ns]
  have s0: "scenarioRand_s0 (world lonely_server) = 7"
    by (simp add: lonely_server_def game0_def world0_def)
  have "scenarioRand_s0 (world (invoke ?d network_send_tick ?p)) = scenarioRand_s0 (world lonely_server)"
    by (rule seed_simulation_state)
       (simp add: keeps_simulation_invoke keeps_simulation_Tick_prologue
         keeps_simulation_deps_queued_action)
  then have "scenarioRand_s0 (world (invokes ?d
      [MapAnimationInvalidateAll, network_process_pending, GameActions_ProcessQueue]
      (invoke ?d network_send_tick ?p))) = 8"
    by (simp add: queue_deps_queued_action s0)
  moreover have "scenarioRand_s0 (world (Tick ?d lonely_server))
       = scenarioRand_s0 (world (invokes ?d
      [MapAnimationInvalidateAll, network_process_pending, GameActions_ProcessQueue]
      (invoke ?d network_send_tick ?p)))"
    unfolding t
    by (rule seed_simulation_state)
       (simp add: m keeps_simulation_Tick_epilogue keeps_simulation_deps_queued_action)
  ultimately have e: "scenarioRand_s0 (world (Tick ?d lonely_server)) = 8" by simp
  have u: "updates_run (trace (Tick ?d lonely_server)) = 0"
    by (simp add: t lonely_server_simps)
  have c: "gCurrentTicks (Tick ?d lonely_server) = gCurrentTicks lonely_server"
    by (simp add: t)
  from p s u c s0 e show ?thesis
    by (auto simp add: simulation_state_def lonely_server_simps)
qed


subsection \<open>The client and the server tick\<close>

text \<open>
  An update on a client whose server tick, as read after the update's own
  \<^verbatim>\<open>network_update()\<close>, equals the tick counter returns early: the tick counter, the
  saved age and the logical date keep their values, and beyond the replay manager and
  the network poll nothing is called.
\<close>

lemma UpdateLogic_early_return:
  assumes "network_mode (world (UpdateLogic_prologue d g)) = NETWORK_MODE_CLIENT"
    and "network_server_tick (world (UpdateLogic_prologue d g)) = gCurrentTicks g"
  shows "gCurrentTicks (UpdateLogic d g) = gCurrentTicks g
         \<and> gSavedAge (UpdateLogic d g) = gSavedAge g
         \<and> date (UpdateLogic d g) = date g
         \<and> since g (UpdateLogic d g)
             = map (Pair (gCurrentTicks g))
                 [PROFILED_FUNCTION fn_UpdateLogic, ReplayManager_Update, network_update]"
proof -
  have e: "UpdateLogic_returns_early d g"
    using assms by (simp add: UpdateLogic_returns_early_def Let_def)
  have "gSavedAge (UpdateLogic_prologue d g) = gSavedAge g"
    by (simp add: UpdateLogic_prologue_def Let_def invoke_def)
  moreover have "since g (UpdateLogic_prologue d g)
             = map (Pair (gCurrentTicks g))
                 [PROFILED_FUNCTION fn_UpdateLogic, ReplayManager_Update, network_update]"
    by (rule since_append) (simp add: trace_UpdateLogic_prologue)
  ultimately show ?thesis
    by (simp add: UpdateLogic_early[OF e])
qed


subsection \<open>The hooks\<close>

lemma count_hook_UpdateLogic:
  assumes "is_hook c"
  shows "count_call c (trace (UpdateLogic d g)) =
           count_call c (trace g)
           + length (filter (\<lambda>x. x = c)
               (if UpdateLogic_returns_early d g then []
                else hooks_fired d g (UpdateLogic d g)))"
proof -
  obtain net steps where t:
     "trace (UpdateLogic d g) =
       trace g
       @ map (Pair (gCurrentTicks g))
           [PROFILED_FUNCTION fn_UpdateLogic, ReplayManager_Update, network_update]
       @ net @ steps
       @ map (Pair (gCurrentTicks g + 1))
           (if UpdateLogic_returns_early d g then [] else hooks_fired d g (UpdateLogic d g))"
     and n: "list_all (\<lambda>e. fst e = gCurrentTicks g \<and> network_part (snd e)) net"
     and s: "list_all (\<lambda>e. fst e = gCurrentTicks g \<and> pipeline_part (snd e)) steps"
    using trace_UpdateLogic[of d g] by blast
  have nn: "\<not> network_part c" and np: "\<not> pipeline_part c"
    and n3: "c \<noteq> PROFILED_FUNCTION fn_UpdateLogic" "c \<noteq> ReplayManager_Update"
      "c \<noteq> network_update"
    using assms
    by (cases c; simp add: is_hook_def network_part_def pipeline_part_def simulation_step_def)+
  have "count_calls (\<lambda>x. x = c) net = 0"
    by (rule count_calls_none, rule list_all_weaken[OF n]) (use nn in auto)
  moreover have "count_calls (\<lambda>x. x = c) steps = 0"
    by (rule count_calls_none, rule list_all_weaken[OF s]) (use np in auto)
  ultimately show ?thesis
    unfolding count_call_def t count_calls_append count_calls_stamped
    using n3 by simp
qed

text \<open>
  C7. With scripting enabled, an update that completes (does not take the client's
  early return) calls the tick hook exactly once, and calls the day hook exactly once
  if the day of the logical date it computed differs from the day of the date cached
  when the update began, and not at all otherwise.
\<close>

theorem UpdateLogic_hooks:
  assumes "ENABLE_SCRIPTING d" and "\<not> UpdateLogic_returns_early d g"
  shows "count_call (HookEngine_Call INTERVAL_TICK True) (trace (UpdateLogic d g))
           = count_call (HookEngine_Call INTERVAL_TICK True) (trace g) + 1
         \<and> count_call (HookEngine_Call INTERVAL_DAY True) (trace (UpdateLogic d g))
           = count_call (HookEngine_Call INTERVAL_DAY True) (trace g)
             + (if Date_GetDay d (date (UpdateLogic d g)) \<noteq> Date_GetDay d (date g)
                then 1 else 0)"
  using assms
  by (auto simp add: count_hook_UpdateLogic is_hook_def hooks_fired_def)

lemma world_invoke_deps0:
  "world (invoke deps0 c g) =
     (if c = DateUpdate
      then (world g)\<lparr>gDateMonthTicks := gDateMonthTicks (world g) + 4\<rparr>
      else world g)"
  by (simp add: world_invoke deps0_def)

lemma world_UpdateLogic_prologue_deps0: "world (UpdateLogic_prologue deps0 g) = world g"
  by (simp add: UpdateLogic_prologue_def Let_def world_invoke_deps0)

lemma date_UpdateLogic_single_player_deps0:
  assumes "network_mode (world g) = NETWORK_MODE_NONE"
  shows "date (UpdateLogic deps0 g) =
           \<lparr>monthsElapsed = gDateMonthsElapsed (world g),
            monthTicks = gDateMonthTicks (world g) + 4\<rparr>"
proof -
  have "UpdateLogic_network deps0 (UpdateLogic_prologue deps0 g)
          = Some (UpdateLogic_prologue deps0 g)"
    using assms by (simp add: UpdateLogic_network_def world_UpdateLogic_prologue_deps0)
  then show ?thesis
    by (simp add: UpdateLogic_def Let_def date_UpdateLogic_pipeline world_invoke_deps0
        world_UpdateLogic_prologue_deps0)
qed

lemma eve_of_day_simps:
  "trace eve_of_day = []"
  "network_mode (world eve_of_day) = NETWORK_MODE_NONE"
  "date eve_of_day = \<lparr>monthsElapsed = 0, monthTicks = 2044\<rparr>"
  "gDateMonthsElapsed (world eve_of_day) = 0"
  "gDateMonthTicks (world eve_of_day) = 2044"
  by (simp_all add: eve_of_day_def game0_def world0_def)

lemma game0_simps:
  "trace game0 = []"
  "gCurrentTicks game0 = 100"
  "network_mode (world game0) = NETWORK_MODE_NONE"
  "date game0 = \<lparr>monthsElapsed = 0, monthTicks = 0\<rparr>"
  "gDateMonthsElapsed (world game0) = 0"
  "gDateMonthTicks (world game0) = 0"
  by (simp_all add: game0_def world0_def)

text \<open>
  Four month ticks before a day boundary the update fires both hooks; at the start of
  a day it fires the tick hook only.
\<close>

theorem UpdateLogic_hooks_witness:
  "count_call (HookEngine_Call INTERVAL_TICK True) (trace (UpdateLogic deps0 eve_of_day)) = 1
   \<and> count_call (HookEngine_Call INTERVAL_DAY True) (trace (UpdateLogic deps0 eve_of_day)) = 1
   \<and> count_call (HookEngine_Call INTERVAL_TICK True) (trace (UpdateLogic deps0 game0)) = 1
   \<and> count_call (HookEngine_Call INTERVAL_DAY True) (trace (UpdateLogic deps0 game0)) = 0"
proof -
  have s: "ENABLE_SCRIPTING deps0" by (simp add: deps0_def)
  have e1: "\<not> UpdateLogic_returns_early deps0 eve_of_day"
    by (simp add: steady_returns_early[OF steady_deps0] eve_of_day_simps)
  have e2: "\<not> UpdateLogic_returns_early deps0 game0"
    by (simp add: steady_returns_early[OF steady_deps0] game0_simps)
  have g: "\<And>dt. Date_GetDay deps0 dt = uint (drop_bit 11 (monthTicks dt))"
    by (simp add: deps0_def)
  have d1: "Date_GetDay deps0 (date (UpdateLogic deps0 eve_of_day)) = 1"
    "Date_GetDay deps0 (date eve_of_day) = 0"
    by (simp_all add: date_UpdateLogic_single_player_deps0 eve_of_day_simps g
        drop_bit_eq_div)
  have d2: "Date_GetDay deps0 (date (UpdateLogic deps0 game0)) = 0"
    "Date_GetDay deps0 (date game0) = 0"
    by (simp_all add: date_UpdateLogic_single_player_deps0 game0_simps g
        drop_bit_eq_div)
  from UpdateLogic_hooks[OF s e1] UpdateLogic_hooks[OF s e2] show ?thesis
    by (simp add: d1 d2 eve_of_day_simps(1) game0_simps(1) count_call_def)
qed

subsection \<open>Snapshots on the server\<close>

lemma snapshot_links_Nil [simp]: "snapshot_links [] = []"
  by (simp add: snapshot_links_def)

lemma snapshot_links_append [simp]:
  "snapshot_links (xs @ ys) = snapshot_links xs @ snapshot_links ys"
  by (simp add: snapshot_links_def)

lemma snapshot_links_Cons:
  "snapshot_links (e # evs) =
     (case snd e of LinkSnapshot t s \<Rightarrow> [(t, s)] | _ \<Rightarrow> []) @ snapshot_links evs"
  by (simp add: snapshot_links_def)

lemma pipeline_part_not_network: "pipeline_part c \<Longrightarrow> \<not> network_part c"
  by (cases c) (simp_all add: pipeline_part_def simulation_step_def network_part_def)

lemma snapshot_links_none:
  "list_all (\<lambda>e. \<not> network_part (snd e)) evs \<Longrightarrow> snapshot_links evs = []"
  by (induction evs) (auto simp add: snapshot_links_Cons network_part_def split: call.splits)

lemma hooks_fired_not_network: "list_all (\<lambda>c. \<not> network_part c) (hooks_fired d g g')"
  by (simp add: hooks_fired_def network_part_def)

lemma UpdateLogic_network_server:
  assumes "network_mode (world g) = NETWORK_MODE_SERVER"
    and "network_gamestate_snapshots_enabled (world g)"
  shows "UpdateLogic_network d g = Some (invoke d network_send_tick (CreateStateSnapshot d g))"
  using assms by (simp add: UpdateLogic_network_def)

text \<open>The calls of an update on a server with snapshots enabled.\<close>

lemma trace_UpdateLogic_server:
  assumes "network_mode (world (UpdateLogic_prologue d g)) = NETWORK_MODE_SERVER"
    and "network_gamestate_snapshots_enabled (world (UpdateLogic_prologue d g))"
  shows "\<exists>rest. trace (UpdateLogic d g) =
           trace g @
           map (Pair (gCurrentTicks g))
             [PROFILED_FUNCTION fn_UpdateLogic, ReplayManager_Update, network_update,
              PROFILED_FUNCTION fn_CreateStateSnapshot, CreateSnapshot, Capture,
              LinkSnapshot (gCurrentTicks g)
                (scenarioRand_s0 (world (at_link d (UpdateLogic_prologue d g)))),
              network_send_tick] @ rest
         \<and> list_all (\<lambda>e. \<not> network_part (snd e)) rest"
proof -
  let ?p = "UpdateLogic_prologue d g"
  let ?g2 = "invoke d network_send_tick (CreateStateSnapshot d ?p)"
  have n: "UpdateLogic_network d ?p = Some ?g2"
    using assms by (rule UpdateLogic_network_server)
  then have u: "UpdateLogic d g = UpdateLogic_pipeline d ?g2"
    by (simp add: UpdateLogic_def Let_def)
  obtain steps where st:
    "trace (UpdateLogic_pipeline d ?g2) =
       trace ?g2 @ steps
        @ map (Pair (gCurrentTicks ?g2 + 1)) (hooks_fired d ?g2 (UpdateLogic_pipeline d ?g2))"
    "list_all (\<lambda>e. fst e = gCurrentTicks ?g2 \<and> pipeline_part (snd e)) steps"
    using trace_UpdateLogic_pipeline[of d ?g2] by blast
  let ?rest = "steps
        @ map (Pair (gCurrentTicks ?g2 + 1)) (hooks_fired d ?g2 (UpdateLogic_pipeline d ?g2))"
  have "list_all (\<lambda>e. \<not> network_part (snd e)) steps"
    by (rule list_all_weaken[OF st(2)]) (simp add: pipeline_part_not_network)
  moreover have "list_all (\<lambda>e. \<not> network_part (snd e))
       (map (Pair (gCurrentTicks ?g2 + 1)) (hooks_fired d ?g2 (UpdateLogic_pipeline d ?g2)))"
    using hooks_fired_not_network[of d ?g2 "UpdateLogic_pipeline d ?g2"]
    by (simp add: list_all_iff)
  ultimately have r: "list_all (\<lambda>e. \<not> network_part (snd e)) ?rest" by simp
  have "trace (UpdateLogic d g) =
           trace g @
           map (Pair (gCurrentTicks g))
             [PROFILED_FUNCTION fn_UpdateLogic, ReplayManager_Update, network_update,
              PROFILED_FUNCTION fn_CreateStateSnapshot, CreateSnapshot, Capture,
              LinkSnapshot (gCurrentTicks g)
                (scenarioRand_s0 (world (at_link d (UpdateLogic_prologue d g)))),
              network_send_tick] @ ?rest"
    unfolding u st(1)
    by (simp add: trace_CreateStateSnapshot trace_UpdateLogic_prologue)
  with r show ?thesis by blast
qed

lemma snapshot_links_UpdateLogic_server:
  assumes "network_mode (world (UpdateLogic_prologue d g)) = NETWORK_MODE_SERVER"
    and "network_gamestate_snapshots_enabled (world (UpdateLogic_prologue d g))"
  shows "snapshot_links (trace (UpdateLogic d g)) =
           snapshot_links (trace g)
           @ [(gCurrentTicks g, scenarioRand_s0 (world (at_link d (UpdateLogic_prologue d g))))]"
proof -
  obtain rest where t: "trace (UpdateLogic d g) =
           trace g @
           map (Pair (gCurrentTicks g))
             [PROFILED_FUNCTION fn_UpdateLogic, ReplayManager_Update, network_update,
              PROFILED_FUNCTION fn_CreateStateSnapshot, CreateSnapshot, Capture,
              LinkSnapshot (gCurrentTicks g)
                (scenarioRand_s0 (world (at_link d (UpdateLogic_prologue d g)))),
              network_send_tick] @ rest"
    and r: "list_all (\<lambda>e. \<not> network_part (snd e)) rest"
    using trace_UpdateLogic_server[OF assms] by blast
  from r have "snapshot_links rest = []" by (rule snapshot_links_none)
  then show ?thesis
    unfolding t by (simp add: snapshot_links_Cons)
qed

lemma unat_run_increasing:
  assumes "unat (t :: u32) + n \<le> 2 ^ 32"
  shows "sorted_wrt (<) (map (\<lambda>i. unat (t + of_nat i)) [0..<n])"
  unfolding sorted_wrt_iff_nth_less
proof (intro allI impI)
  fix i j
  assume ij: "i < j" and "j < length (map (\<lambda>i. unat (t + of_nat i)) [0..<n])"
  then have j: "j < n" by simp
  with ij have i: "i < n" by simp
  have "unat (t + of_nat i) = unat t + i"
    using assms i by (intro unat_add_small) simp
  moreover have "unat (t + of_nat j) = unat t + j"
    using assms j by (intro unat_add_small) simp
  ultimately show "map (\<lambda>i. unat (t + of_nat i)) [0..<n] ! i
                     < map (\<lambda>i. unat (t + of_nat i)) [0..<n] ! j"
    using i j ij by simp
qed

lemma server_at_simps:
  "gCurrentTicks (server_at t) = t"
  "trace (server_at t) = []"
  "network_mode (world (server_at t)) = NETWORK_MODE_SERVER"
  "network_gamestate_snapshots_enabled (world (server_at t))"
  "scenarioRand_s0 (world (server_at t)) = 7"
  by (simp_all add: server_at_def game0_def world0_def)

lemma linked_ticks_serving:
  "serving d n g \<Longrightarrow>
   map fst (snapshot_links (trace (UpdateLogic_times d n g))) =
     map fst (snapshot_links (trace g))
     @ map (\<lambda>i. gCurrentTicks g + of_nat i) [0..<n]"
proof (induction n arbitrary: g)
  case 0
  then show ?case by simp
next
  case (Suc n)
  let ?g = "UpdateLogic d g"
  from Suc.prems have sp: "network_mode (world (UpdateLogic_prologue d g)) = NETWORK_MODE_SERVER"
    "network_gamestate_snapshots_enabled (world (UpdateLogic_prologue d g))"
    and s: "serving d n ?g"
    by simp_all
  have "\<not> UpdateLogic_returns_early d g"
    using sp(1) by (simp add: UpdateLogic_returns_early_def Let_def)
  then have t: "gCurrentTicks ?g = gCurrentTicks g + 1"
    by (simp add: ticks_UpdateLogic)
  have l: "map fst (snapshot_links (trace ?g)) = map fst (snapshot_links (trace g)) @ [gCurrentTicks g]"
    by (simp add: snapshot_links_UpdateLogic_server[OF sp])
  have m: "map (\<lambda>i. gCurrentTicks g + of_nat i) [0..<Suc n]
             = gCurrentTicks g # map (\<lambda>i. gCurrentTicks g + 1 + of_nat i) [0..<n]"
    by (simp add: map_upt_Suc ac_simps del: upt_Suc)
  show ?case
    unfolding UpdateLogic_times.simps Suc.IH[OF s] l t m by simp
qed

lemma steady_serving:
  assumes "steady d"
  shows "network_mode (world g) = NETWORK_MODE_SERVER \<Longrightarrow>
         network_gamestate_snapshots_enabled (world g) \<Longrightarrow> serving d n g"
proof (induction n arbitrary: g)
  case 0
  then show ?case by simp
next
  case (Suc n)
  have ip: "inputs (world (UpdateLogic_prologue d g)) = inputs (world g)"
    using assms by (rule steady_UpdateLogic_prologue)
  have i: "inputs (world (UpdateLogic d g)) = inputs (world g)"
    using assms by (rule steady_UpdateLogic)
  have "serving d n (UpdateLogic d g)"
    using i Suc.prems by (intro Suc.IH) (simp_all add: inputs_eq_iff)
  with ip Suc.prems show ?case by (simp add: inputs_eq_iff)
qed

text \<open>
  C8 (as amended). An update that, after its replay and network polls, reads the role
  \<^verbatim>\<open>Server\<close> and snapshots enabled creates one snapshot, captures it and links it to the
  tick counter and to the seed the generator holds at that moment, then announces the
  tick; nothing it calls afterwards touches the snapshot store or the network
  announcement. Over \<open>n\<close> consecutive such updates the ticks linked are the tick
  counter's successive values, one more each time modulo \<open>2 ^ 32\<close>: they increase as
  long as the counter does not wrap around.
\<close>

theorem UpdateLogic_server_snapshot:
  "(network_mode (world (UpdateLogic_prologue d g)) = NETWORK_MODE_SERVER
    \<and> network_gamestate_snapshots_enabled (world (UpdateLogic_prologue d g)) \<longrightarrow>
      (\<exists>rest.
            since g (UpdateLogic d g) =
              map (Pair (gCurrentTicks g))
                [PROFILED_FUNCTION fn_UpdateLogic, ReplayManager_Update, network_update,
                 PROFILED_FUNCTION fn_CreateStateSnapshot, CreateSnapshot, Capture,
                 LinkSnapshot (gCurrentTicks g)
                   (scenarioRand_s0 (world (at_link d (UpdateLogic_prologue d g)))),
                 network_send_tick] @ rest
            \<and> count_calls network_part rest = 0))
   \<and> (serving d n g \<longrightarrow>
         map fst (snapshot_links (trace (UpdateLogic_times d n g))) =
             map fst (snapshot_links (trace g))
             @ map (\<lambda>i. gCurrentTicks g + of_nat i) [0..<n])
   \<and> (unat (gCurrentTicks g) + n \<le> 2 ^ 32 \<longrightarrow>
              sorted_wrt (<) (map (\<lambda>i. unat (gCurrentTicks g + of_nat i)) [0..<n]))"
proof -
  have first: "\<exists>rest.
            since g (UpdateLogic d g) =
              map (Pair (gCurrentTicks g))
                [PROFILED_FUNCTION fn_UpdateLogic, ReplayManager_Update, network_update,
                 PROFILED_FUNCTION fn_CreateStateSnapshot, CreateSnapshot, Capture,
                 LinkSnapshot (gCurrentTicks g)
                   (scenarioRand_s0 (world (at_link d (UpdateLogic_prologue d g)))),
                 network_send_tick] @ rest
            \<and> count_calls network_part rest = 0"
    if sp: "network_mode (world (UpdateLogic_prologue d g)) = NETWORK_MODE_SERVER"
       "network_gamestate_snapshots_enabled (world (UpdateLogic_prologue d g))"
  proof -
    obtain rest where t: "trace (UpdateLogic d g) =
           trace g @
           map (Pair (gCurrentTicks g))
             [PROFILED_FUNCTION fn_UpdateLogic, ReplayManager_Update, network_update,
              PROFILED_FUNCTION fn_CreateStateSnapshot, CreateSnapshot, Capture,
              LinkSnapshot (gCurrentTicks g)
                (scenarioRand_s0 (world (at_link d (UpdateLogic_prologue d g)))),
              network_send_tick] @ rest"
      and r: "list_all (\<lambda>e. \<not> network_part (snd e)) rest"
      using trace_UpdateLogic_server[OF sp] by blast
    have "since g (UpdateLogic d g) =
              map (Pair (gCurrentTicks g))
                [PROFILED_FUNCTION fn_UpdateLogic, ReplayManager_Update, network_update,
                 PROFILED_FUNCTION fn_CreateStateSnapshot, CreateSnapshot, Capture,
                 LinkSnapshot (gCurrentTicks g)
                   (scenarioRand_s0 (world (at_link d (UpdateLogic_prologue d g)))),
                 network_send_tick] @ rest"
      using t by (rule since_append)
    moreover have "count_calls network_part rest = 0"
      using r by (rule count_calls_none)
    ultimately show ?thesis by blast
  qed
  show ?thesis
    using first linked_ticks_serving[of d n g] unat_run_increasing[of "gCurrentTicks g" n]
    by blast
qed

text \<open>Three updates of a server from tick 100: the links are to ticks 100, 101, 102.\<close>

theorem UpdateLogic_server_snapshot_witness:
  "serving deps0 3 (server_at 100)
   \<and> map fst (snapshot_links (trace (UpdateLogic_times deps0 3 (server_at 100))))
     = [100, 101, 102]
   \<and> sorted_wrt (<) (map (\<lambda>i. unat ((100 :: u32) + of_nat i)) [0..<3])
   \<and> (\<exists>rest.
        since (server_at 100) (UpdateLogic deps0 (server_at 100)) =
          [(100, PROFILED_FUNCTION fn_UpdateLogic), (100, ReplayManager_Update),
           (100, network_update), (100, PROFILED_FUNCTION fn_CreateStateSnapshot),
           (100, CreateSnapshot), (100, Capture),
           (100, LinkSnapshot 100
                   (scenarioRand_s0
                      (world (at_link deps0 (UpdateLogic_prologue deps0 (server_at 100)))))),
           (100, network_send_tick)] @ rest
        \<and> count_calls network_part rest = 0)"
proof -
  have u: "[0..<3] = [0, 1, 2]" by (simp add: upt_rec)
  have sv: "serving deps0 3 (server_at 100)"
    by (rule steady_serving[OF steady_deps0]) (simp_all add: server_at_simps)
  have sp: "network_mode (world (UpdateLogic_prologue deps0 (server_at 100))) = NETWORK_MODE_SERVER"
    "network_gamestate_snapshots_enabled (world (UpdateLogic_prologue deps0 (server_at 100)))"
    using steady_UpdateLogic_prologue[OF steady_deps0, of "server_at 100"]
    by (simp_all add: inputs_eq_iff server_at_simps)
  from UpdateLogic_server_snapshot[of deps0 "server_at 100" 3] sv sp show ?thesis
    by (simp add: server_at_simps u)
qed

text \<open>
  Two updates of a server at the last value of the counter: the second snapshot is
  linked to tick 0, below the first.
\<close>

theorem UpdateLogic_server_snapshot_counterexample:
  "network_mode (world (server_at 4294967295)) = NETWORK_MODE_SERVER
   \<and> network_gamestate_snapshots_enabled (world (server_at 4294967295))
   \<and> map fst (snapshot_links (trace (UpdateLogic_times deps0 2 (server_at 4294967295))))
       = [4294967295, 0]
   \<and> \<not> sorted (map unat
         (map fst (snapshot_links (trace (UpdateLogic_times deps0 2 (server_at 4294967295))))))"
proof -
  have u: "[0..<2] = [0, 1]" by (simp add: upt_rec)
  have "serving deps0 2 (server_at 4294967295)"
    by (rule steady_serving[OF steady_deps0]) (simp_all add: server_at_simps)
  then have "map fst (snapshot_links (trace (UpdateLogic_times deps0 2 (server_at 4294967295))))
       = [4294967295, 0]"
    using linked_ticks_serving[of deps0 2 "server_at 4294967295"]
    by (simp add: server_at_simps u)
  then show ?thesis by (simp add: server_at_simps)
qed

subsection \<open>The tick counter\<close>

lemma network_part_not_hook: "network_part c \<Longrightarrow> \<not> is_hook c"
  by (cases c) (simp_all add: network_part_def is_hook_def)

lemma pipeline_part_not_hook: "pipeline_part c \<Longrightarrow> \<not> is_hook c"
  by (cases c) (simp_all add: pipeline_part_def simulation_step_def is_hook_def)

lemma stamps_UpdateLogic:
  "list_all (\<lambda>e. fst e = (if is_hook (snd e) then gCurrentTicks g + 1 else gCurrentTicks g))
     (since g (UpdateLogic d g))"
proof -
  let ?Q = "\<lambda>e. fst e = (if is_hook (snd e) then gCurrentTicks g + 1 else gCurrentTicks g)"
  let ?hooks = "map (Pair (gCurrentTicks g + 1))
           (if UpdateLogic_returns_early d g then [] else hooks_fired d g (UpdateLogic d g))"
  obtain net steps where t:
     "trace (UpdateLogic d g) =
       trace g
       @ map (Pair (gCurrentTicks g))
           [PROFILED_FUNCTION fn_UpdateLogic, ReplayManager_Update, network_update]
       @ net @ steps @ ?hooks"
     and n: "list_all (\<lambda>e. fst e = gCurrentTicks g \<and> network_part (snd e)) net"
     and s: "list_all (\<lambda>e. fst e = gCurrentTicks g \<and> pipeline_part (snd e)) steps"
    using trace_UpdateLogic[of d g] by blast
  have 1: "list_all ?Q (map (Pair (gCurrentTicks g))
           [PROFILED_FUNCTION fn_UpdateLogic, ReplayManager_Update, network_update])"
    by (simp add: is_hook_def)
  have 2: "list_all ?Q net"
    by (rule list_all_weaken[OF n]) (simp add: network_part_not_hook)
  have 3: "list_all ?Q steps"
    by (rule list_all_weaken[OF s]) (simp add: pipeline_part_not_hook)
  have 4: "list_all ?Q ?hooks"
    by (simp add: hooks_fired_def is_hook_def)
  have "since g (UpdateLogic d g) =
       map (Pair (gCurrentTicks g))
           [PROFILED_FUNCTION fn_UpdateLogic, ReplayManager_Update, network_update]
       @ net @ steps @ ?hooks"
    using t by (rule since_append)
  with 1 2 3 4 show ?thesis by simp
qed

lemma ticks_InitAll: "gCurrentTicks (InitAll d mapSize g) = 0"
  by (simp add: InitAll_def Let_def)

lemma ticks_Tick_pause:
  "Tick_pause d p n g = (r, m, g2) \<Longrightarrow> gCurrentTicks g2 = gCurrentTicks g"
  by (auto simp add: Tick_pause_def Let_def split: if_splits)

lemma unat_Suc_word:
  assumes "unat (t :: u32) < 2 ^ 32 - 1"
  shows "unat (t + 1) = unat t + 1"
proof -
  have "unat (t + of_nat 1) = unat t + 1"
    using assms by (intro unat_add_small) simp
  then show ?thesis by simp
qed

lemma single_player_at_simps:
  "gCurrentTicks (single_player_at t) = t"
  "trace (single_player_at t) = []"
  "network_mode (world (single_player_at t)) = NETWORK_MODE_NONE"
  by (simp_all add: single_player_at_def game0_def world0_def)

lemma updates_completed_simps [simp]:
  "updates_completed [] = 0"
  "updates_completed (xs @ ys) = updates_completed xs + updates_completed ys"
  "updates_completed (e # evs) = (if snd e = DateUpdate then 1 else 0) + updates_completed evs"
  by (simp_all add: updates_completed_def count_call_def)

lemma updates_completed_part:
  assumes "trace g' = trace g @ evs" and "list_all (\<lambda>e. Q (snd e)) evs"
    and "\<not> Q DateUpdate"
  shows "updates_completed (trace g') = updates_completed (trace g)"
  unfolding updates_completed_def count_call_def
  by (rule count_calls_part[OF assms(1,2)]) (use assms(3) in auto)

lemma updates_completed_UpdateLogic_pipeline:
  "updates_completed (trace (UpdateLogic_pipeline d g)) = updates_completed (trace g) + 1"
proof -
  obtain park where t:
    "trace (UpdateLogic_pipeline d g) =
       trace g
       @ map (Pair (gCurrentTicks g))
           ([DateUpdate, ScenarioUpdate, ClimateUpdate, MapUpdateTiles,
             MapRemoveProvisionalElements, MapUpdatePathWideFlags, PeepUpdateAll,
             MapRestoreProvisionalElements, VehicleUpdateAll, UpdateAllMiscEntities,
             Ride_UpdateAll]
            @ park
            @ [ResearchUpdate, RideRatingsUpdateAll, RideMeasurementsUpdate,
               News_UpdateCurrentItem, MapAnimationInvalidateAll, VehicleSoundsUpdate,
               PeepUpdateCrowdNoise, ClimateUpdateSound, EditorOpenWindowsForCurrentStep])
       @ map (Pair (gCurrentTicks g))
           [GameActions_ProcessQueue, network_process_pending, network_flush]
       @ map (Pair (gCurrentTicks g + 1)) (hooks_fired d g (UpdateLogic_pipeline d g))"
    and p: "park = [] \<or> park = [Park_Update (date (UpdateLogic_pipeline d g))]"
    using trace_UpdateLogic_pipeline_order[of d g] by blast
  from p show ?thesis
    unfolding t updates_completed_def count_call_def count_calls_append count_calls_stamped
    by (auto simp add: hooks_fired_def)
qed

lemma updates_completed_UpdateLogic:
  "updates_completed (trace (UpdateLogic d g))
     = updates_completed (trace g) + (if UpdateLogic_returns_early d g then 0 else 1)"
proof (cases "UpdateLogic_returns_early d g")
  case True
  then show ?thesis
    by (simp add: UpdateLogic_early trace_UpdateLogic_prologue updates_completed_def
        count_call_def)
next
  case False
  let ?p = "UpdateLogic_prologue d g"
  obtain g2 where n: "UpdateLogic_network d ?p = Some g2"
    and u: "UpdateLogic d g = UpdateLogic_pipeline d g2"
    using UpdateLogic_complete[OF False] by blast
  from n have net: "trace g2 = trace ?p @ since ?p g2"
    "list_all (\<lambda>e. fst e = gCurrentTicks ?p \<and> network_part (snd e)) (since ?p g2)"
    using trace_UpdateLogic_network[of d ?p g2] by simp_all
  have "list_all (\<lambda>e. network_part (snd e)) (since ?p g2)"
    by (rule list_all_weaken[OF net(2)]) simp
  with net(1) have "updates_completed (trace g2) = updates_completed (trace ?p)"
    by (rule updates_completed_part) (simp add: network_part_def)
  also have "\<dots> = updates_completed (trace g)"
    by (simp add: trace_UpdateLogic_prologue updates_completed_def count_call_def)
  finally show ?thesis
    using False by (simp add: u updates_completed_UpdateLogic_pipeline)
qed

lemma updates_completed_InputSetFlag [simp]:
  "updates_completed (trace (InputSetFlag d b g)) = updates_completed (trace g)"
  by (simp add: updates_completed_def count_call_def)

lemma completed_update_loop:
  "\<exists>k\<le>n. updates_completed (trace (update_loop d n g)) = updates_completed (trace g) + k
          \<and> gCurrentTicks (update_loop d n g) = gCurrentTicks g + of_nat k"
proof (induction n arbitrary: g)
  case 0
  then show ?case by simp
next
  case (Suc n)
  define j :: nat where "j = (if UpdateLogic_returns_early d g then 0 else 1)"
  have j: "j \<le> 1"
    "updates_completed (trace (UpdateLogic d g)) = updates_completed (trace g) + j"
    "gCurrentTicks (UpdateLogic d g) = gCurrentTicks g + of_nat j"
    by (simp_all add: j_def updates_completed_UpdateLogic ticks_UpdateLogic)
  from update_loop_Suc_cases[of d n g] show ?case
  proof (elim disjE)
    assume "update_loop d (Suc n) g = UpdateLogic d g"
    with j have "j \<le> Suc n
       \<and> updates_completed (trace (update_loop d (Suc n) g)) = updates_completed (trace g) + j
       \<and> gCurrentTicks (update_loop d (Suc n) g) = gCurrentTicks g + of_nat j"
      by simp
    then show ?thesis by blast
  next
    assume "update_loop d (Suc n) g = InputSetFlag d False (UpdateLogic d g)"
    with j have "j \<le> Suc n
       \<and> updates_completed (trace (update_loop d (Suc n) g)) = updates_completed (trace g) + j
       \<and> gCurrentTicks (update_loop d (Suc n) g) = gCurrentTicks g + of_nat j"
      by simp
    then show ?thesis by blast
  next
    assume a: "update_loop d (Suc n) g = update_loop d n (UpdateLogic d g)"
    obtain k where k: "k \<le> n"
      "updates_completed (trace (update_loop d n (UpdateLogic d g)))
         = updates_completed (trace (UpdateLogic d g)) + k"
      "gCurrentTicks (update_loop d n (UpdateLogic d g))
         = gCurrentTicks (UpdateLogic d g) + of_nat k"
      using Suc.IH[of "UpdateLogic d g"] by blast
    from a j k have "j + k \<le> Suc n
       \<and> updates_completed (trace (update_loop d (Suc n) g)) = updates_completed (trace g) + (j + k)
       \<and> gCurrentTicks (update_loop d (Suc n) g) = gCurrentTicks g + of_nat (j + k)"
      by simp
    then show ?thesis by blast
  qed
qed

lemma updates_completed_Tick_pause:
  "Tick_pause d p n g = (r, m, g2) \<Longrightarrow>
   updates_completed (trace g2) = updates_completed (trace g)"
  by (auto simp add: Tick_pause_def Let_def updates_completed_def count_call_def
      split: if_splits)

lemma updates_completed_Tick_prologue [simp]:
  "updates_completed (trace (Tick_prologue d g)) = updates_completed (trace g)"
  unfolding updates_completed_def count_call_def
  by (rule count_Tick_prologue) (simp add: driver_part_def)

lemma updates_completed_Tick_epilogue [simp]:
  "updates_completed (trace (Tick_epilogue d r g)) = updates_completed (trace g)"
  unfolding updates_completed_def count_call_def
  by (rule count_Tick_epilogue) (simp add: driver_part_def)

lemma completed_Tick:
  "\<exists>k\<le>Tick_requested d g.
      updates_completed (trace (Tick d g)) = updates_completed (trace g) + k
      \<and> gCurrentTicks (Tick d g) = gCurrentTicks g + of_nat k"
proof -
  let ?g1 = "Tick_prologue d g"
  obtain r n g2 where p: "Tick_pause d (Tick_isPaused ?g1) (Tick_numUpdates d ?g1) ?g1 = (r, n, g2)"
    by (cases "Tick_pause d (Tick_isPaused ?g1) (Tick_numUpdates d ?g1) ?g1") auto
  have t: "Tick d g = Tick_epilogue d r (update_loop d (unat n) g2)"
    by (simp add: Tick_def Let_def p)
  have q: "Tick_requested d g = unat n"
    by (simp add: Tick_requested_def Let_def p)
  have g2: "gCurrentTicks g2 = gCurrentTicks g"
    using ticks_Tick_pause[OF p] by simp
  have c2: "updates_completed (trace g2) = updates_completed (trace g)"
    using updates_completed_Tick_pause[OF p] by simp
  obtain k where "k \<le> unat n"
    "updates_completed (trace (update_loop d (unat n) g2)) = updates_completed (trace g2) + k"
    "gCurrentTicks (update_loop d (unat n) g2) = gCurrentTicks g2 + of_nat k"
    using completed_update_loop by blast
  then have "k \<le> Tick_requested d g
      \<and> updates_completed (trace (Tick d g)) = updates_completed (trace g) + k
      \<and> gCurrentTicks (Tick d g) = gCurrentTicks g + of_nat k"
    by (simp add: t q g2 c2)
  then show ?thesis by blast
qed


text \<open>
  C9 (as amended). An update that does not take the client's early return adds exactly
  one to the tick counter, modulo \<open>2 ^ 32\<close>; every call the update makes sees the old
  value, except the hook calls, which come last and see the new one: the fifteen or
  sixteen subsystem updates, the action queue drain and the network flush all precede
  the increment. An update that returns early, and \<^verbatim>\<open>CreateStateSnapshot\<close>, leave the
  counter alone; a frame adds exactly as many as the updates it completes, which are
  at most those its loop is entered for. As long as the counter is below \<open>2 ^ 32 - 1\<close>
  an update never lowers it. \<^verbatim>\<open>InitAll\<close> resets it to 0.
\<close>

theorem tick_counter_advances:
  "gCurrentTicks (UpdateLogic d g)
     = (if UpdateLogic_returns_early d g then gCurrentTicks g else gCurrentTicks g + 1)
   \<and> updates_completed (trace (UpdateLogic d g))
       = updates_completed (trace g) + (if UpdateLogic_returns_early d g then 0 else 1)
   \<and> list_all
        (\<lambda>e. fst e = (if is_hook (snd e) then gCurrentTicks g + 1 else gCurrentTicks g))
        (since g (UpdateLogic d g))
   \<and> (unat (gCurrentTicks g) < 2 ^ 32 - 1 \<longrightarrow>
        unat (gCurrentTicks (UpdateLogic d g))
          = unat (gCurrentTicks g) + (if UpdateLogic_returns_early d g then 0 else 1))
   \<and> (\<not> UpdateLogic_returns_early d g \<longrightarrow>
        (\<exists>before.
           since g (UpdateLogic d g) =
             before
             @ map (Pair (gCurrentTicks g))
                 [GameActions_ProcessQueue, network_process_pending, network_flush]
             @ map (Pair (gCurrentTicks g + 1)) (hooks_fired d g (UpdateLogic d g))
           \<and> 15 \<le> count_calls simulation_step before))
   \<and> gCurrentTicks (CreateStateSnapshot d g) = gCurrentTicks g
   \<and> (\<exists>k\<le>Tick_requested d g.
        updates_completed (trace (Tick d g)) = updates_completed (trace g) + k
        \<and> gCurrentTicks (Tick d g) = gCurrentTicks g + of_nat k)
   \<and> gCurrentTicks (InitAll d mapSize g) = 0"
proof -
  have "unat (gCurrentTicks g) < 2 ^ 32 - 1 \<longrightarrow>
        unat (gCurrentTicks (UpdateLogic d g))
          = unat (gCurrentTicks g) + (if UpdateLogic_returns_early d g then 0 else 1)"
    by (simp add: ticks_UpdateLogic unat_Suc_word)
  then show ?thesis
    using ticks_UpdateLogic[of d g] stamps_UpdateLogic[of g d] completed_Tick[of d g]
      ticks_InitAll[of d mapSize g] tail_UpdateLogic[of d g] updates_completed_UpdateLogic[of d g]
    by simp
qed

text \<open>
  A single-player update at tick 100 ends at tick 101, and so does a frame at normal
  speed, with one update completed; re-initialisation ends at 0.
\<close>

theorem tick_counter_advances_witness:
  "unat (gCurrentTicks (single_player_at 100)) < 2 ^ 32 - 1
   \<and> gCurrentTicks (UpdateLogic deps0 (single_player_at 100)) = 101
   \<and> unat (gCurrentTicks (UpdateLogic deps0 (single_player_at 100))) = 101
   \<and> updates_completed (trace (UpdateLogic deps0 (single_player_at 100))) = 1
   \<and> Tick_requested deps0 (single_player_at 100) = 1
   \<and> gCurrentTicks (Tick deps0 (single_player_at 100)) = 101
   \<and> updates_completed (trace (Tick deps0 (single_player_at 100))) = 1
   \<and> gCurrentTicks (InitAll deps0 (64, 64) (single_player_at 100)) = 0"
proof -
  let ?g = "single_player_at 100"
  have e: "\<not> UpdateLogic_returns_early deps0 ?g"
    by (simp add: steady_returns_early[OF steady_deps0] single_player_at_simps)
  have w: "world ?g = world0" by (simp add: single_player_at_def game0_def)
  have np: "\<not> Tick_isPaused ?g"
    by (simp add: Tick_isPaused_def GameIsPaused_def w world0_def)
  have nb: "no_break (world ?g)"
    by (simp add: no_break_def w world0_def)
  have n: "Tick_numUpdates deps0 ?g = 1"
    by (simp add: Tick_numUpdates_def w world0_def)
  have r: "Tick_requested deps0 ?g = 1"
    using Tick_requested_not_paused[OF steady_deps0 np] n by simp
  have "gCurrentTicks (Tick deps0 ?g) = gCurrentTicks ?g + of_nat (unat (Tick_numUpdates deps0 ?g))"
    by (rule ticks_Tick_runs[OF steady_deps0 np nb]) (simp add: single_player_at_simps)
  then have t: "gCurrentTicks (Tick deps0 ?g) = 101"
    by (simp add: n single_player_at_simps)
  obtain k where k: "k \<le> Tick_requested deps0 ?g"
    "updates_completed (trace (Tick deps0 ?g)) = updates_completed (trace ?g) + k"
    "gCurrentTicks (Tick deps0 ?g) = gCurrentTicks ?g + of_nat k"
    using tick_counter_advances[of deps0 ?g "(64, 64)"] by blast
  from k(1) r have "k = 0 \<or> k = 1" by auto
  with k(3) t have "k = 1" by (auto simp add: single_player_at_simps)
  with k(2) have c: "updates_completed (trace (Tick deps0 ?g)) = 1"
    by (simp add: single_player_at_simps)
  from tick_counter_advances[of deps0 ?g "(64, 64)"] e r t c show ?thesis
    by (simp add: single_player_at_simps)
qed

text \<open>
  A completed update at the last value of the counter: it wraps to 0, below where it
  was.
\<close>

theorem tick_counter_wraps_counterexample:
  "\<not> UpdateLogic_returns_early deps0 (single_player_at 4294967295)
   \<and> gCurrentTicks (UpdateLogic deps0 (single_player_at 4294967295)) = 0
   \<and> unat (gCurrentTicks (UpdateLogic deps0 (single_player_at 4294967295)))
       < unat (gCurrentTicks (single_player_at 4294967295))"
proof -
  have e: "\<not> UpdateLogic_returns_early deps0 (single_player_at 4294967295)"
    by (simp add: steady_returns_early[OF steady_deps0] single_player_at_simps)
  then show ?thesis
    by (simp add: ticks_UpdateLogic single_player_at_simps)
qed

subsection \<open>The client ahead of its server\<close>

text \<open>
  C10 (as amended). In a frame of a connected, authenticated client that reads a server
  tick below its own tick counter, the 32-bit difference wraps around, and if the
  client is ahead by no more than \<open>2 ^ 32 - 10\<close> the clamp yields 10; unless paused, the
  loop is entered for ten updates.
\<close>

theorem Tick_client_ahead_of_server:
  assumes "network_mode (world (Tick_prologue d g)) = NETWORK_MODE_CLIENT"
    and "network_status (world (Tick_prologue d g)) = NETWORK_STATUS_CONNECTED"
    and "network_authstatus (world (Tick_prologue d g)) = NetworkAuth_Ok"
    and "network_server_tick (world (Tick_prologue d g)) < gCurrentTicks g"
    and "unat (gCurrentTicks g) - unat (network_server_tick (world (Tick_prologue d g)))
           \<le> 2 ^ 32 - 10"
  shows "unat (network_server_tick (world (Tick_prologue d g)) - gCurrentTicks g)
           = 2 ^ 32 - (unat (gCurrentTicks g)
                         - unat (network_server_tick (world (Tick_prologue d g))))
         \<and> Tick_numUpdates d (Tick_prologue d g) = 10
         \<and> (\<not> gGamePaused (world (Tick_prologue d g)) \<longrightarrow> Tick_requested d g = 10)"
proof -
  let ?p = "Tick_prologue d g"
  have w: "unat (network_server_tick (world ?p) - gCurrentTicks g)
           = 2 ^ 32 - (unat (gCurrentTicks g) - unat (network_server_tick (world ?p)))"
    using assms(4) by (rule unat_sub_wrapped)
  have "unat (Tick_numUpdates d ?p)
          = min (unat (network_server_tick (world ?p) - gCurrentTicks ?p)) 10"
    using assms(1,2,3) by (rule Tick_numUpdates_client)
  with w assms(5) have "unat (Tick_numUpdates d ?p) = 10" by simp
  then have u: "unat (Tick_numUpdates d ?p) = 10" .
  have "Tick_numUpdates d ?p = of_nat (unat (Tick_numUpdates d ?p))" by simp
  also have "\<dots> = 10" unfolding u by simp
  finally have n: "Tick_numUpdates d ?p = 10" .
  have "\<not> gGamePaused (world ?p) \<longrightarrow> Tick_requested d g = 10"
    using assms(1) by (simp add: Tick_requested_def Let_def Tick_pause_def n client_not_paused)
  with w n show ?thesis by simp
qed

lemma client_at_prologue_deps0:
  "network_mode (world (Tick_prologue deps0 (client_at l s))) = NETWORK_MODE_CLIENT"
  "network_status (world (Tick_prologue deps0 (client_at l s))) = NETWORK_STATUS_CONNECTED"
  "network_authstatus (world (Tick_prologue deps0 (client_at l s))) = NetworkAuth_Ok"
  "network_server_tick (world (Tick_prologue deps0 (client_at l s))) = s"
  "gGamePaused (world (Tick_prologue deps0 (client_at l s))) = False"
  using steady_Tick_prologue[OF steady_deps0, of "client_at l s"]
  by (simp_all add: inputs_eq_iff client_at_simps)

text \<open>A client at tick 57 whose server announced tick 50 enters the loop for ten updates.\<close>

theorem Tick_client_ahead_of_server_witness:
  "network_server_tick (world (Tick_prologue deps0 (client_at 57 50)))
     < gCurrentTicks (client_at 57 50)
   \<and> Tick_numUpdates deps0 (Tick_prologue deps0 (client_at 57 50)) = 10
   \<and> Tick_requested deps0 (client_at 57 50) = 10"
  using Tick_client_ahead_of_server[of deps0 "client_at 57 50"]
  by (simp add: client_at_prologue_deps0 client_at_simps)

text \<open>
  A client at the last value of the counter whose server has wrapped to tick 0: the
  server tick is below the client's, the difference wraps to 1 and the clamp yields 1.
\<close>

theorem Tick_client_ahead_of_server_counterexample:
  "network_mode (world (Tick_prologue deps0 (client_at 4294967295 0))) = NETWORK_MODE_CLIENT
   \<and> network_status (world (Tick_prologue deps0 (client_at 4294967295 0)))
       = NETWORK_STATUS_CONNECTED
   \<and> network_authstatus (world (Tick_prologue deps0 (client_at 4294967295 0)))
       = NetworkAuth_Ok
   \<and> network_server_tick (world (Tick_prologue deps0 (client_at 4294967295 0)))
       < gCurrentTicks (client_at 4294967295 0)
   \<and> Tick_numUpdates deps0 (Tick_prologue deps0 (client_at 4294967295 0)) = 1"
  by (simp add: client_at_prologue_deps0 client_at_simps Tick_numUpdates_def clamp_u32_def)

end
